theory Spec2Isabelle
  imports Complex_Main
begin

section \<open>JavaScript values of the quote records and of the stored rows\<close>

text \<open>
  The script \<^verbatim>\<open>scripts/fetch-realtime.js\<close> handles JSON data: the fields of a quote
  record and the slots of a stored row are JSON scalars, or absent (\<^verbatim>\<open>undefined\<close>).
  A JavaScript number is a double: NaN, an infinity, or a finite value. A finite value is
  kept as the rational it stands for; the rounding to the nearest double is left out, the
  overflow to an infinity is written out (\<open>toDouble\<close>). Strings are lists of code units
  below 256.
\<close>

datatype jsnum = NaN | PosInf | NegInf | Fin rat

datatype jsval = JUndefined | JNull | JBool bool | JNum jsnum | JStr string

text \<open>\<^verbatim>\<open>a === b\<close>: equal values of the same type, and NaN equals nothing.\<close>

definition strictEq :: "jsval \<Rightarrow> jsval \<Rightarrow> bool" where
  "strictEq a b = (a = b \<and> a \<noteq> JNum NaN)"

text \<open>The truth value a condition takes a value for (\<^verbatim>\<open>if (v)\<close>, \<^verbatim>\<open>!v\<close>, \<^verbatim>\<open>v && w\<close>).\<close>

fun truthy :: "jsval \<Rightarrow> bool" where
  "truthy JUndefined = False"
| "truthy JNull = False"
| "truthy (JBool b) = b"
| "truthy (JNum n) = (n \<noteq> NaN \<and> n \<noteq> Fin 0)"
| "truthy (JStr s) = (s \<noteq> [])"

definition isNaN :: "jsnum \<Rightarrow> bool" where
  "isNaN n = (n = NaN)"

subsection \<open>\<^verbatim>\<open>Number(v)\<close>\<close>

definition isDigit :: "char \<Rightarrow> bool" where
  "isDigit ch = (48 \<le> (of_char ch :: nat) \<and> (of_char ch :: nat) \<le> 57)"

definition isWhiteSpace :: "char \<Rightarrow> bool" where
  "isWhiteSpace ch = ((of_char ch :: nat) \<in> {9, 10, 11, 12, 13, 32, 160})"

definition trim :: "string \<Rightarrow> string" where
  "trim s = rev (dropWhile isWhiteSpace (rev (dropWhile isWhiteSpace s)))"

definition digitVal :: "char \<Rightarrow> int" where
  "digitVal ch =
     (let n = (of_char ch :: int) in
      if 48 \<le> n \<and> n \<le> 57 then n - 48
      else if 97 \<le> n \<and> n \<le> 102 then n - 87
      else if 65 \<le> n \<and> n \<le> 70 then n - 55
      else 16)"

definition digitsValue :: "int \<Rightarrow> string \<Rightarrow> int" where
  "digitsValue base ds = foldl (\<lambda>acc ch. acc * base + digitVal ch) 0 ds"

text \<open>A double that is too large in magnitude is an infinity.\<close>

definition toDouble :: "rat \<Rightarrow> jsnum" where
  "toDouble q =
     (if 2 ^ 1024 - 2 ^ 970 \<le> q then PosInf
      else if q \<le> - (2 ^ 1024 - 2 ^ 970) then NegInf
      else Fin q)"

text \<open>\<^verbatim>\<open>0x1F\<close>, \<^verbatim>\<open>0o17\<close>, \<^verbatim>\<open>0b101\<close>: a prefix and at least one digit of the base.\<close>

definition parseRadix :: "int \<Rightarrow> string \<Rightarrow> jsnum" where
  "parseRadix base ds =
     (if ds \<noteq> [] \<and> list_all (\<lambda>ch. digitVal ch < base) ds
      then toDouble (of_int (digitsValue base ds))
      else NaN)"

text \<open>The exponent part after \<^verbatim>\<open>e\<close> or \<^verbatim>\<open>E\<close>: an optional sign and at least one digit.\<close>

definition parseExponent :: "string \<Rightarrow> int option" where
  "parseExponent s =
     (let (neg, ds) =
        (case s of
           ch # t \<Rightarrow> if ch = CHR ''-'' then (True, t)
                     else if ch = CHR ''+'' then (False, t)
                     else (False, s)
         | [] \<Rightarrow> (False, s))
      in if ds \<noteq> [] \<and> list_all isDigit ds
         then Some (if neg then - digitsValue 10 ds else digitsValue 10 ds)
         else None)"

definition scale10 :: "rat \<Rightarrow> int \<Rightarrow> rat" where
  "scale10 q e = (if 0 \<le> e then q * 10 ^ nat e else q / 10 ^ nat (- e))"

text \<open>An unsigned decimal literal: \<^verbatim>\<open>12\<close>, \<^verbatim>\<open>12.\<close>, \<^verbatim>\<open>12.5\<close>, \<^verbatim>\<open>.5\<close>, each with an optional exponent.\<close>

definition parseUnsignedDecimal :: "string \<Rightarrow> rat option" where
  "parseUnsignedDecimal s =
     (let ip = takeWhile isDigit s;
          r1 = dropWhile isDigit s;
          hasDot = (r1 \<noteq> [] \<and> hd r1 = CHR ''.'');
          fp = (if hasDot then takeWhile isDigit (tl r1) else []);
          r2 = (if hasDot then dropWhile isDigit (tl r1) else r1);
          mant = (of_int (digitsValue 10 (ip @ fp)) :: rat) / 10 ^ length fp
      in if ip = [] \<and> fp = [] then None
         else (case r2 of
                 [] \<Rightarrow> Some mant
               | ch # t \<Rightarrow>
                   if ch = CHR ''e'' \<or> ch = CHR ''E''
                   then (case parseExponent t of
                           None \<Rightarrow> None
                         | Some e \<Rightarrow> Some (scale10 mant e))
                   else None))"

definition parseSignedDecimal :: "string \<Rightarrow> jsnum" where
  "parseSignedDecimal s =
     (let neg = (s \<noteq> [] \<and> hd s = CHR ''-'');
          body = (if s \<noteq> [] \<and> (hd s = CHR ''-'' \<or> hd s = CHR ''+'') then tl s else s)
      in if body = ''Infinity'' then (if neg then NegInf else PosInf)
         else (case parseUnsignedDecimal body of
                 None \<Rightarrow> NaN
               | Some q \<Rightarrow> toDouble (if neg then - q else q)))"

text \<open>The conversion of a string to a number: white space is trimmed, the empty string is 0.\<close>

definition stringToNumber :: "string \<Rightarrow> jsnum" where
  "stringToNumber s =
     (let t = trim s in
      if t = [] then Fin 0
      else if take 2 t = ''0x'' \<or> take 2 t = ''0X'' then parseRadix 16 (drop 2 t)
      else if take 2 t = ''0o'' \<or> take 2 t = ''0O'' then parseRadix 8 (drop 2 t)
      else if take 2 t = ''0b'' \<or> take 2 t = ''0B'' then parseRadix 2 (drop 2 t)
      else parseSignedDecimal t)"

fun Number :: "jsval \<Rightarrow> jsnum" where
  "Number JUndefined = NaN"
| "Number JNull = Fin 0"
| "Number (JBool b) = (if b then Fin 1 else Fin 0)"
| "Number (JNum n) = n"
| "Number (JStr s) = stringToNumber s"

section \<open>Rows and series\<close>

text \<open>
  A row is a JSON array \<^verbatim>\<open>[date, open, high, low, close, volume]\<close>; a series is the array
  of rows of \<^verbatim>\<open>realtime.json\<close>. The placeholder of a missing number is the string
  \<^verbatim>\<open>'-'\<close>.
\<close>

type_synonym row = "jsval list"
type_synonym series = "row list"

definition Missing :: jsval where
  "Missing = JStr ''-''"

text \<open>\<^verbatim>\<open>row[i]\<close>: reading past the end of an array gives \<^verbatim>\<open>undefined\<close>.\<close>

definition elemAt :: "row \<Rightarrow> nat \<Rightarrow> jsval" where
  "elemAt r i = (if i < length r then r ! i else JUndefined)"

text \<open>\<^verbatim>\<open>parseValue\<close> (lines 362-368).\<close>

definition parseValue :: "jsval \<Rightarrow> jsval" where
  "parseValue val =
     (if strictEq val (JStr ''-'') \<or> strictEq val JNull \<or> strictEq val JUndefined
         \<or> strictEq val (JStr '''')
      then JStr ''-''
      else (let num = Number val in if isNaN num then JStr ''-'' else JNum num))"

text \<open>\<^verbatim>\<open>existingData.findIndex(p)\<close>: the first index whose element satisfies \<open>p\<close>; \<open>None\<close> is -1.\<close>

fun findIndex :: "('a \<Rightarrow> bool) \<Rightarrow> 'a list \<Rightarrow> nat option" where
  "findIndex p [] = None"
| "findIndex p (x # xs) =
     (if p x then Some 0 else map_option Suc (findIndex p xs))"

text \<open>
  The update of a row of the same date (lines 494-501):
  \<^verbatim>\<open>newRow.map((val, idx) => (val === '-' && existingRow[idx] !== '-') ? existingRow[idx] : val)\<close>.
\<close>

definition updatedRow :: "row \<Rightarrow> row \<Rightarrow> row" where
  "updatedRow existingRow newRow =
     map (\<lambda>(val, idx).
            if strictEq val (JStr ''-'') \<and> \<not> strictEq (elemAt existingRow idx) (JStr ''-'')
            then elemAt existingRow idx
            else val)
         (zip newRow [0 ..< length newRow])"

text \<open>
  The merge of \<^verbatim>\<open>newRow\<close> into \<^verbatim>\<open>existingData\<close> (lines 486-504 of \<^verbatim>\<open>processBatchData\<close>, and
  lines 181-199 of \<^verbatim>\<open>processStock\<close>): a row of the date \<^verbatim>\<open>todayDate\<close> is updated in place,
  otherwise the new row is pushed.
\<close>

definition mergeRow :: "series \<Rightarrow> string \<Rightarrow> row \<Rightarrow> series" where
  "mergeRow existingData todayDate newRow =
     (case findIndex (\<lambda>r. strictEq (elemAt r 0) (JStr todayDate)) existingData of
        None \<Rightarrow> existingData @ [newRow]
      | Some existingIdx \<Rightarrow>
          existingData[existingIdx := updatedRow (existingData ! existingIdx) newRow])"

text \<open>
  The reconciler of the specification, \<^verbatim>\<open>merge(existingSeries, newRow)\<close>: the date of the merge
  is the first slot of the new row, as in the code, where \<^verbatim>\<open>newRow[0]\<close> is \<^verbatim>\<open>todayDate\<close>.
\<close>

definition merge :: "series \<Rightarrow> string \<Rightarrow> jsval list \<Rightarrow> series" where
  "merge S date slots = mergeRow S date (JStr date # slots)"

text \<open>
  The preference rule in the specification's words: the existing value is kept when the new
  one is Missing and the existing one is not; otherwise the new value is taken.
\<close>

definition resolve :: "jsval \<Rightarrow> jsval \<Rightarrow> jsval" where
  "resolve e n = (if n = Missing \<and> e \<noteq> Missing then e else n)"

definition rowDate :: "row \<Rightarrow> jsval" where
  "rowDate r = elemAt r 0"

text \<open>At most one row for each date.\<close>

definition dedup :: "series \<Rightarrow> bool" where
  "dedup S = distinct (map rowDate S)"

text \<open>A sequence of merges, each a date and the five slots of its row.\<close>

fun mergeAll :: "series \<Rightarrow> (string \<times> jsval list) list \<Rightarrow> series" where
  "mergeAll S [] = S"
| "mergeAll S ((date, slots) # rs) = mergeAll (merge S date slots) rs"

section \<open>Quote records and their normalisation\<close>

text \<open>
  A quote record of the provider's \<^verbatim>\<open>msgArray\<close>: the fields the script reads, \<^verbatim>\<open>data.c\<close>
  (symbol code), \<^verbatim>\<open>data.d\<close> (date), \<^verbatim>\<open>data.tlong\<close> (epoch milliseconds), \<^verbatim>\<open>data.o\<close>,
  \<^verbatim>\<open>data.h\<close>, \<^verbatim>\<open>data.l\<close>, \<^verbatim>\<open>data.z\<close> (trade price) and \<^verbatim>\<open>data.v\<close>. An absent field is
  \<open>JUndefined\<close>.
\<close>

record rawquote =
  data_c :: jsval
  data_d :: jsval
  data_tlong :: jsval
  data_o :: jsval
  data_h :: jsval
  data_l :: jsval
  data_z :: jsval
  data_v :: jsval

text \<open>The exceptions the script can raise on a record.\<close>

datatype error = RangeError | TypeError

text \<open>
  The test of lines 421 and 112:
  \<^verbatim>\<open>data.z && data.z !== '-' && !isNaN(Number(data.z))\<close>.
\<close>

definition hasValidPrice :: "rawquote \<Rightarrow> bool" where
  "hasValidPrice data =
     (truthy (data_z data) \<and> \<not> strictEq (data_z data) (JStr ''-'')
      \<and> \<not> isNaN (Number (data_z data)))"

text \<open>
  \<^verbatim>\<open>formatDate\<close> (lines 322-326): \<^verbatim>\<open>null\<close> for a falsy argument, otherwise the first eight
  of the digits of the string. A truthy value that is no string has no \<^verbatim>\<open>replace\<close>.
\<close>

definition formatDate :: "jsval \<Rightarrow> error + string option" where
  "formatDate dateStr =
     (if \<not> truthy dateStr then Inr None
      else (case dateStr of
              JStr s \<Rightarrow> Inr (Some (take 8 (filter isDigit s)))
            | _ \<Rightarrow> Inl TypeError))"

subsection \<open>\<^verbatim>\<open>new Date(t).toISOString()\<close>\<close>

text \<open>
  The time value of \<^verbatim>\<open>new Date(t)\<close>: \<open>None\<close> (an invalid date) when \<open>t\<close> is not finite or
  beyond 8.64e15 in magnitude, otherwise \<open>t\<close> truncated towards zero.
\<close>

definition newDate :: "jsnum \<Rightarrow> int option" where
  "newDate t =
     (case t of
        Fin q \<Rightarrow>
          if 8640000000000000 < \<bar>q\<bar> then None
          else Some (if 0 \<le> q then \<lfloor>q\<rfloor> else - \<lfloor>- q\<rfloor>)
      | _ \<Rightarrow> None)"

definition digitChar :: "nat \<Rightarrow> char" where
  "digitChar n = char_of (48 + n mod 10)"

text \<open>\<open>n\<close> in \<open>w\<close> decimal digits, padded with zeros.\<close>

definition padDigits :: "nat \<Rightarrow> nat \<Rightarrow> string" where
  "padDigits w n = map (\<lambda>i. digitChar (n div 10 ^ (w - 1 - i))) [0 ..< w]"

text \<open>Year, month and day of the month of a day number counted from 1970-01-01 (UTC).\<close>

definition civilFromDays :: "int \<Rightarrow> int \<times> int \<times> int" where
  "civilFromDays days =
     (let z = days + 719468;
          era = z div 146097;
          doe = z mod 146097;
          yoe = (doe - doe div 1460 + doe div 36524 - doe div 146096) div 365;
          y = yoe + era * 400;
          doy = doe - (365 * yoe + yoe div 4 - yoe div 100);
          mp = (5 * doy + 2) div 153;
          dd = doy - (153 * mp + 2) div 5 + 1;
          m = (if mp < 10 then mp + 3 else mp - 9)
      in (if m \<le> 2 then y + 1 else y, m, dd))"

definition isoYear :: "int \<Rightarrow> string" where
  "isoYear y =
     (if 0 \<le> y \<and> y \<le> 9999 then padDigits 4 (nat y)
      else (if y < 0 then CHR ''-'' else CHR ''+'') # padDigits 6 (nat \<bar>y\<bar>))"

text \<open>\<^verbatim>\<open>toISOString\<close> raises a RangeError on an invalid date.\<close>

definition toISOString :: "int option \<Rightarrow> error + string" where
  "toISOString tv =
     (case tv of
        None \<Rightarrow> Inl RangeError
      | Some t \<Rightarrow>
          (let ms = nat (t mod 86400000);
               (y, m, dd) = civilFromDays (t div 86400000)
           in Inr (isoYear y @ ''-'' @ padDigits 2 (nat m) @ ''-'' @ padDigits 2 (nat dd)
                   @ ''T'' @ padDigits 2 (ms div 3600000)
                   @ '':'' @ padDigits 2 (ms div 60000 mod 60)
                   @ '':'' @ padDigits 2 (ms div 1000 mod 60)
                   @ ''.'' @ padDigits 3 (ms mod 1000) @ ''Z'')))"

subsection \<open>\<^verbatim>\<open>parseDate\<close> (lines 371-381)\<close>

text \<open>
  \<^verbatim>\<open>d.toISOString().slice(0, 10).replace(/-/g, '')\<close> for the date made from
  \<^verbatim>\<open>Number(data.tlong)\<close>.
\<close>

definition dateFromTlong :: "jsval \<Rightarrow> error + string" where
  "dateFromTlong tlong =
     (case toISOString (newDate (Number tlong)) of
        Inl e \<Rightarrow> Inl e
      | Inr isoString \<Rightarrow> Inr (filter (\<lambda>ch. ch \<noteq> CHR ''-'') (take 10 isoString)))"

text \<open>
  The second step: \<^verbatim>\<open>if (todayDate && todayDate.includes('/')) todayDate = todayDate.replace(/\//g, '')\<close>.
  A truthy value that is no string has no \<^verbatim>\<open>includes\<close>.
\<close>

definition stripSlashes :: "jsval \<Rightarrow> error + jsval" where
  "stripSlashes todayDate =
     (if \<not> truthy todayDate then Inr todayDate
      else (case todayDate of
              JStr s \<Rightarrow>
                Inr (if CHR ''/'' \<in> set s then JStr (filter (\<lambda>ch. ch \<noteq> CHR ''/'') s)
                     else JStr s)
            | _ \<Rightarrow> Inl TypeError))"

definition parseDate :: "rawquote \<Rightarrow> error + string option" where
  "parseDate data =
     (case (if \<not> truthy (data_d data) \<and> truthy (data_tlong data)
            then map_sum id JStr (dateFromTlong (data_tlong data))
            else Inr (data_d data)) of
        Inl e \<Rightarrow> Inl e
      | Inr todayDate \<Rightarrow>
          (case stripSlashes todayDate of
             Inl e \<Rightarrow> Inl e
           | Inr todayDate' \<Rightarrow> formatDate todayDate'))"

text \<open>
  \<^verbatim>\<open>newRow\<close> (lines 476-483):
  \<^verbatim>\<open>[todayDate, parseValue(data.o), parseValue(data.h), parseValue(data.l), parseValue(data.z), parseValue(data.v)]\<close>.
\<close>

definition newRow :: "string \<Rightarrow> rawquote \<Rightarrow> row" where
  "newRow todayDate data =
     [JStr todayDate, parseValue (data_o data), parseValue (data_h data),
      parseValue (data_l data), parseValue (data_z data), parseValue (data_v data)]"

section \<open>The store of the series\<close>

text \<open>
  \<^verbatim>\<open>public/data/<id>/realtime.json\<close> for each symbol: no file, a file that \<^verbatim>\<open>JSON.parse\<close>
  rejects, or the array of rows that \<^verbatim>\<open>saveData\<close> writes.
\<close>

datatype filecontent = Unreadable | Content series

type_synonym store = "string \<rightharpoonup> filecontent"

text \<open>\<^verbatim>\<open>loadExistingData\<close> (lines 294-305): the empty array for no file and for a parse error.\<close>

definition loadExistingData :: "store \<Rightarrow> string \<Rightarrow> series" where
  "loadExistingData st stockId =
     (case st stockId of
        None \<Rightarrow> []
      | Some Unreadable \<Rightarrow> []
      | Some (Content S) \<Rightarrow> S)"

text \<open>
  What \<^verbatim>\<open>JSON.parse\<close> reads back of a slot that \<^verbatim>\<open>JSON.stringify\<close> wrote: NaN, the
  infinities and \<^verbatim>\<open>undefined\<close> are written as \<^verbatim>\<open>null\<close>.
\<close>

fun jsonValue :: "jsval \<Rightarrow> jsval" where
  "jsonValue JUndefined = JNull"
| "jsonValue (JNum NaN) = JNull"
| "jsonValue (JNum PosInf) = JNull"
| "jsonValue (JNum NegInf) = JNull"
| "jsonValue v = v"

text \<open>\<^verbatim>\<open>saveData\<close> (lines 308-314): the file is overwritten with the whole series.\<close>

definition saveData :: "store \<Rightarrow> string \<Rightarrow> series \<Rightarrow> store" where
  "saveData st stockId S = st(stockId \<mapsto> Content (map (map jsonValue) S))"

record stock =
  stock_id :: string
  stock_name :: string
  stock_type :: string

text \<open>
  \<^verbatim>\<open>bestDataMap\<close>: a \<^verbatim>\<open>Map\<close> from symbol codes to \<^verbatim>\<open>null\<close> (\<open>Some None\<close>) or a record.
  \<open>mapGet\<close> is \<^verbatim>\<open>bestDataMap.get(k)\<close> as a condition reads it: \<open>None\<close> for \<^verbatim>\<open>undefined\<close> and
  for \<^verbatim>\<open>null\<close>.
\<close>

type_synonym bestmap = "jsval \<rightharpoonup> rawquote option"

definition mapGet :: "bestmap \<Rightarrow> jsval \<Rightarrow> rawquote option" where
  "mapGet m k = (case m k of None \<Rightarrow> None | Some e \<Rightarrow> e)"

text \<open>
  \<^verbatim>\<open>processBatchData\<close> (lines 457-509). The result is the store after the writes that were
  made, and the exception that ended the loop, if one did.
\<close>

fun processBatchData :: "stock list \<Rightarrow> bestmap \<Rightarrow> store \<Rightarrow> store \<times> error option" where
  "processBatchData [] bestDataMap st = (st, None)"
| "processBatchData (stock # rest) bestDataMap st =
     (case mapGet bestDataMap (JStr (stock_id stock)) of
        None \<Rightarrow> processBatchData rest bestDataMap st
      | Some data \<Rightarrow>
          (case parseDate data of
             Inl e \<Rightarrow> (st, Some e)
           | Inr None \<Rightarrow> processBatchData rest bestDataMap st
           | Inr (Some todayDate) \<Rightarrow>
               if todayDate = [] then processBatchData rest bestDataMap st
               else
                 (let existingData = loadExistingData st (stock_id stock)
                  in processBatchData rest bestDataMap
                       (saveData st (stock_id stock)
                          (mergeRow existingData todayDate (newRow todayDate data))))))"

section \<open>Polling the quote source\<close>

text \<open>
  The clock and the provider are explicit. \<open>clock\<close> is \<^verbatim>\<open>Date.now()\<close> in milliseconds,
  \<open>calls\<close> counts the requests made and \<open>sleeps\<close> the calls of \<^verbatim>\<open>delay\<close>. The quote source
  gives, for the request number \<open>n\<close>, the time the request takes and the \<^verbatim>\<open>msgArray\<close> of
  the response; a failed request is the empty array, as in the \<^verbatim>\<open>catch\<close> of
  \<^verbatim>\<open>fetchBatchStockData\<close>. \<^verbatim>\<open>delay(ms)\<close> advances the clock by \<open>ms\<close>.
\<close>

record world =
  clock :: int
  calls :: nat
  sleeps :: nat

type_synonym quoteSource = "nat \<Rightarrow> nat \<times> rawquote list"

definition BATCH_SIZE :: nat where
  "BATCH_SIZE = 30"

definition RETRY_INTERVAL :: int where
  "RETRY_INTERVAL = 3000"

definition BATCH_FETCH_TIME :: int where
  "BATCH_FETCH_TIME = 30000"

definition MAX_RETRY_TIME :: int where
  "MAX_RETRY_TIME = 30000"

definition fetched :: "quoteSource \<Rightarrow> world \<Rightarrow> world" where
  "fetched src w = w\<lparr>clock := clock w + int (fst (src (calls w))), calls := Suc (calls w)\<rparr>"

definition delay :: "int \<Rightarrow> world \<Rightarrow> world" where
  "delay ms w = w\<lparr>clock := clock w + ms, sleeps := Suc (sleeps w)\<rparr>"

text \<open>\<^verbatim>\<open>validStockIds.add(stockId)\<close>: a \<^verbatim>\<open>Set\<close> keeps each member once, in the order of arrival.\<close>

definition setAdd :: "jsval list \<Rightarrow> jsval \<Rightarrow> jsval list" where
  "setAdd ids stockId = (if stockId \<in> set ids then ids else ids @ [stockId])"

text \<open>The body of the loop over the records of one response (lines 416-435).\<close>

definition observe :: "bestmap \<times> jsval list \<Rightarrow> rawquote \<Rightarrow> bestmap \<times> jsval list" where
  "observe st data =
     (let bestDataMap = fst st; validStockIds = snd st; stockId = data_c data in
      if \<not> truthy stockId then st
      else if hasValidPrice data
      then (bestDataMap(stockId \<mapsto> Some data), setAdd validStockIds stockId)
      else if mapGet bestDataMap stockId = None
      then (bestDataMap(stockId \<mapsto> Some data), validStockIds)
      else st)"

definition observeAll :: "bestmap \<times> jsval list \<Rightarrow> rawquote list \<Rightarrow> bestmap \<times> jsval list" where
  "observeAll st dataArray = foldl observe st dataArray"

text \<open>
  The \<^verbatim>\<open>while\<close> loop of \<^verbatim>\<open>fetchBatchWithRetry\<close> (lines 408-448), from its test on.
\<close>

function pollLoop ::
  "quoteSource \<Rightarrow> stock list \<Rightarrow> int \<Rightarrow> world \<Rightarrow> bestmap \<times> jsval list
     \<Rightarrow> world \<times> bestmap \<times> jsval list" where
  "pollLoop src stocks startTime w st =
     (if clock w - startTime < BATCH_FETCH_TIME
      then (let st' = observeAll st (snd (src (calls w)));
                w' = fetched src w
            in if length (snd st') = length stocks then (w', st')
               else if clock w' - startTime < BATCH_FETCH_TIME
               then pollLoop src stocks startTime (delay RETRY_INTERVAL w') st'
               else pollLoop src stocks startTime w' st')
      else (w, st))"
  by pat_completeness auto
termination
  by (relation "measure (\<lambda>(src, stocks, startTime, w, st).
                  nat (BATCH_FETCH_TIME - (clock w - startTime)))")
     (auto simp: fetched_def delay_def RETRY_INTERVAL_def BATCH_FETCH_TIME_def)

declare pollLoop.simps [simp del]

text \<open>\<^verbatim>\<open>stocks.forEach(stock => bestDataMap.set(stock.id, null))\<close> on the new map.\<close>

definition initialBest :: "stock list \<Rightarrow> bestmap" where
  "initialBest stocks = foldl (\<lambda>m stock. m(JStr (stock_id stock) \<mapsto> None)) Map.empty stocks"

definition fetchBatchWithRetry ::
  "quoteSource \<Rightarrow> stock list \<Rightarrow> world \<Rightarrow> world \<times> bestmap \<times> jsval list" where
  "fetchBatchWithRetry src stocks w =
     pollLoop src stocks (clock w) w (initialBest stocks, [])"

subsection \<open>The per-symbol loop of the first half of the file\<close>

text \<open>\<^verbatim>\<open>fetchStockData\<close> (lines 84-100): \<^verbatim>\<open>res.data?.msgArray?.[0] || null\<close>.\<close>

definition firstRecord :: "rawquote list \<Rightarrow> rawquote option" where
  "firstRecord msgArray = (case msgArray of [] \<Rightarrow> None | x # _ \<Rightarrow> Some x)"

text \<open>
  The \<^verbatim>\<open>while\<close> loop of \<^verbatim>\<open>fetchWithRetry\<close> (lines 107-125): a record with a valid price is
  returned at once, any other record is kept in \<^verbatim>\<open>lastValidData\<close>.
\<close>

function retryLoop ::
  "quoteSource \<Rightarrow> int \<Rightarrow> world \<Rightarrow> rawquote option \<Rightarrow> world \<times> rawquote option" where
  "retryLoop src startTime w lastValidData =
     (if clock w - startTime < MAX_RETRY_TIME
      then (case firstRecord (snd (src (calls w))) of
              Some data \<Rightarrow>
                if hasValidPrice data then (fetched src w, Some data)
                else retryLoop src startTime (delay RETRY_INTERVAL (fetched src w)) (Some data)
            | None \<Rightarrow>
                retryLoop src startTime (delay RETRY_INTERVAL (fetched src w)) lastValidData)
      else (w, lastValidData))"
  by pat_completeness auto
termination
  by (relation "measure (\<lambda>(src, startTime, w, lastValidData).
                  nat (MAX_RETRY_TIME - (clock w - startTime)))")
     (auto simp: fetched_def delay_def RETRY_INTERVAL_def MAX_RETRY_TIME_def)

declare retryLoop.simps [simp del]

definition fetchWithRetry :: "quoteSource \<Rightarrow> world \<Rightarrow> world \<times> rawquote option" where
  "fetchWithRetry src w = retryLoop src (clock w) w None"

section \<open>The run\<close>

text \<open>\<^verbatim>\<open>chunkArray\<close> (lines 384-390), from the index \<open>i\<close> on; the size is \<open>BATCH_SIZE\<close>.\<close>

function chunkFrom :: "nat \<Rightarrow> 'a list \<Rightarrow> nat \<Rightarrow> 'a list list" where
  "chunkFrom i array chunkSize =
     (if i < length array \<and> 0 < chunkSize
      then take chunkSize (drop i array) # chunkFrom (i + chunkSize) array chunkSize
      else [])"
  by pat_completeness auto
termination
  by (relation "measure (\<lambda>(i, array, chunkSize). length array - i)") auto

declare chunkFrom.simps [simp del]

definition chunkArray :: "'a list \<Rightarrow> nat \<Rightarrow> 'a list list" where
  "chunkArray array chunkSize = chunkFrom 0 array chunkSize"

text \<open>
  The loop over the batches in \<^verbatim>\<open>main\<close> (lines 538-549). An exception of
  \<^verbatim>\<open>processBatchData\<close> rejects the promise of \<^verbatim>\<open>main\<close>, and the handler of lines 556-559
  ends the process with the exit code 1.
\<close>

fun runBatches ::
  "quoteSource \<Rightarrow> stock list list \<Rightarrow> world \<Rightarrow> store \<Rightarrow> world \<times> store \<times> error option" where
  "runBatches src [] w st = (w, st, None)"
| "runBatches src (batch # batches) w st =
     (let polled = fetchBatchWithRetry src batch w;
          processed = processBatchData batch (fst (snd polled)) st
      in case snd processed of
           Some e \<Rightarrow> (fst polled, fst processed, Some e)
         | None \<Rightarrow> runBatches src batches (fst polled) (fst processed))"

definition exitCode :: "world \<times> store \<times> error option \<Rightarrow> nat" where
  "exitCode r = (case snd (snd r) of None \<Rightarrow> 0 | Some e \<Rightarrow> 1)"

definition TARGET_STOCK_IDS :: "string list" where
  "TARGET_STOCK_IDS =
     [''2330'', ''2317'', ''2454'', ''2731'', ''2885'', ''2891'', ''0052'', ''0056'', ''1215'',
      ''00713'', ''2646'', ''2308'', ''2412'', ''00646'', ''3008'', ''00919'', ''00937B'',
      ''00679B'']"

text \<open>
  \<^verbatim>\<open>main\<close> (lines 512-554) from the list that \<^verbatim>\<open>loadStockList\<close> returned on: the symbols
  of the allow-list stand in for an empty list.
\<close>

definition main :: "quoteSource \<Rightarrow> stock list \<Rightarrow> world \<Rightarrow> store \<Rightarrow> world \<times> store \<times> error option" where
  "main src loaded w st =
     (let stocks =
        (if length loaded = 0
         then map (\<lambda>i. \<lparr>stock_id = i, stock_name = i, stock_type = ''twse''\<rparr>) TARGET_STOCK_IDS
         else loaded)
      in runBatches src (chunkArray stocks BATCH_SIZE) w st)"


section \<open>The notions of the specification\<close>

text \<open>\<^verbatim>\<open>typeof v === 'number'\<close>.\<close>

fun isNumber :: "jsval \<Rightarrow> bool" where
  "isNumber (JNum n) = True"
| "isNumber v = False"

fun isFiniteNumber :: "jsval \<Rightarrow> bool" where
  "isFiniteNumber (JNum (Fin q)) = True"
| "isFiniteNumber v = False"

text \<open>
  The specification's words for a valid trade price: the close field parses to a finite
  number, where the numeric derivation of a field is \<^verbatim>\<open>parseValue\<close>.
\<close>

definition parsesToFiniteNumber :: "rawquote \<Rightarrow> bool" where
  "parsesToFiniteNumber data = isFiniteNumber (parseValue (data_z data))"

text \<open>A record with no field set, to write the examples from.\<close>

definition emptyQuote :: rawquote where
  "emptyQuote =
     \<lparr>data_c = JUndefined, data_d = JUndefined, data_tlong = JUndefined, data_o = JUndefined,
      data_h = JUndefined, data_l = JUndefined, data_z = JUndefined, data_v = JUndefined\<rparr>"

text \<open>The records of the responses to the requests from number \<open>a\<close> up to \<open>b - 1\<close>.\<close>

definition observed :: "quoteSource \<Rightarrow> nat \<Rightarrow> nat \<Rightarrow> rawquote list" where
  "observed src a b = concat (map (\<lambda>n. snd (src n)) [a ..< b])"

text \<open>Two symbols, and the clock and the counters at the start of a run.\<close>

definition tsmc :: stock where
  "tsmc = \<lparr>stock_id = ''2330'', stock_name = ''TSMC'', stock_type = ''twse''\<rparr>"

definition honhai :: stock where
  "honhai = \<lparr>stock_id = ''2317'', stock_name = ''Hon Hai'', stock_type = ''twse''\<rparr>"

definition world0 :: world where
  "world0 = \<lparr>clock = 0, calls = 0, sleeps = 0\<rparr>"

text \<open>Records of the two symbols with a price, and placeholders of the first.\<close>

definition priced2330 :: rawquote where
  "priced2330 = emptyQuote\<lparr>data_c := JStr ''2330'', data_d := JStr ''20250101'', data_z := JStr ''100''\<rparr>"

definition priced2317 :: rawquote where
  "priced2317 = emptyQuote\<lparr>data_c := JStr ''2317'', data_d := JStr ''20250101'', data_z := JStr ''50''\<rparr>"

definition placeholderA :: rawquote where
  "placeholderA = emptyQuote\<lparr>data_c := JStr ''2330'', data_d := JStr ''20250101'', data_z := JStr ''-'',
                              data_v := JStr ''6000''\<rparr>"

definition placeholderB :: rawquote where
  "placeholderB = emptyQuote\<lparr>data_c := JStr ''2330'', data_d := JStr ''20250101'', data_z := JStr ''-'',
                              data_v := JStr ''7000''\<rparr>"

text \<open>A record with a price, no date field, and a timestamp field that is no number.\<close>

definition undated2330 :: rawquote where
  "undated2330 = emptyQuote\<lparr>data_c := JStr ''2330'', data_tlong := JStr ''abc'', data_z := JStr ''100''\<rparr>"

text \<open>A stored series of one row for the symbol 2330.\<close>

definition store2330 :: store where
  "store2330 =
     [''2330'' \<mapsto> Content [[JStr ''20250101'', JNum (Fin 100), JNum (Fin 105), JNum (Fin 99),
                             JNum (Fin 104), JNum (Fin 5000)]]]"

text \<open>A source that answers the first request with one placeholder and the later ones with another.\<close>

definition twoPlaceholders :: quoteSource where
  "twoPlaceholders n = (15000, [if n = 0 then placeholderA else placeholderB])"

text \<open>The symbol has a stored series with a row of the date.\<close>

definition storedUnder :: "store \<Rightarrow> string \<Rightarrow> string \<Rightarrow> bool" where
  "storedUnder st stockId date =
     (case st stockId of
        Some (Content S) \<Rightarrow> JStr date \<in> set (map rowDate S)
      | Some Unreadable \<Rightarrow> False
      | None \<Rightarrow> False)"

text \<open>
  The records of a symbol code in a list of records, and those of them with a valid price.
\<close>

definition recordsOf :: "jsval \<Rightarrow> rawquote list \<Rightarrow> rawquote list" where
  "recordsOf k ds = filter (\<lambda>data. data_c data = k) ds"

definition validOf :: "jsval \<Rightarrow> rawquote list \<Rightarrow> rawquote list" where
  "validOf k ds = filter (\<lambda>data. data_c data = k \<and> hasValidPrice data) ds"

text \<open>A source that answers the first request with a price and the later ones with a placeholder.\<close>

definition pricedThenPlaceholder :: quoteSource where
  "pricedThenPlaceholder n = (15000, [if n = 0 then priced2330 else placeholderA])"

text \<open>A record of the symbol 2330 whose date field has seven digits.\<close>

definition shortDate2330 :: rawquote where
  "shortDate2330 = emptyQuote\<lparr>data_c := JStr ''2330'', data_d := JStr ''2025/12/5'', data_z := JStr ''100''\<rparr>"

section \<open>The reconciler\<close>

subsection \<open>Facts about the search and the update of a row\<close>

lemma strictEq_JStr [simp]: "strictEq v (JStr s) = (v = JStr s)"
  by (auto simp: strictEq_def)

lemma findIndex_None_iff: "findIndex p xs = None \<longleftrightarrow> (\<forall>x \<in> set xs. \<not> p x)"
  by (induction xs) auto

lemma findIndex_Some_D:
  "findIndex p xs = Some i \<Longrightarrow> i < length xs \<and> p (xs ! i) \<and> (\<forall>j < i. \<not> p (xs ! j))"
proof (induction xs arbitrary: i)
  case Nil
  then show ?case by simp
next
  case (Cons x xs)
  show ?case
  proof (cases "p x")
    case True
    with Cons.prems show ?thesis by simp
  next
    case False
    with Cons.prems obtain j where j: "findIndex p xs = Some j" "i = Suc j"
      by auto
    from Cons.IH [OF j(1)] False j(2) show ?thesis
      by (auto simp: nth_Cons split: nat.splits)
  qed
qed

lemma findIndex_first:
  "i < length xs \<Longrightarrow> p (xs ! i) \<Longrightarrow> \<forall>j < i. \<not> p (xs ! j) \<Longrightarrow> findIndex p xs = Some i"
proof (induction xs arbitrary: i)
  case Nil
  then show ?case by simp
next
  case (Cons x xs)
  show ?case
  proof (cases i)
    case 0
    with Cons.prems show ?thesis by simp
  next
    case (Suc j)
    with Cons.prems have "\<not> p x" by auto
    moreover from Suc Cons.prems have "findIndex p xs = Some j"
      by (intro Cons.IH) auto
    ultimately show ?thesis using Suc by simp
  qed
qed

lemma length_updatedRow [simp]: "length (updatedRow e n) = length n"
  by (simp add: updatedRow_def)

lemma updatedRow_nth:
  "k < length n \<Longrightarrow> updatedRow e n ! k = resolve (elemAt e k) (n ! k)"
  by (simp add: updatedRow_def resolve_def Missing_def)

lemma resolve_resolve: "resolve (resolve e n) n = resolve e n"
  by (simp add: resolve_def)

lemma updatedRow_updatedRow: "updatedRow (updatedRow e n) n = updatedRow e n"
  by (rule nth_equalityI) (simp_all add: updatedRow_nth elemAt_def resolve_resolve)

lemma updatedRow_self: "updatedRow n n = n"
  by (rule nth_equalityI) (simp_all add: updatedRow_nth elemAt_def resolve_def)

lemma rowDate_updatedRow:
  "rowDate e = JStr date \<Longrightarrow> rowDate (updatedRow e (JStr date # slots)) = JStr date"
  by (simp add: rowDate_def elemAt_def updatedRow_nth resolve_def)

lemma merge_found:
  "findIndex (\<lambda>r. strictEq (elemAt r 0) (JStr date)) S = Some i \<Longrightarrow>
   merge S date slots = S[i := updatedRow (S ! i) (JStr date # slots)]"
  by (simp add: merge_def mergeRow_def)

lemma merge_not_found:
  "findIndex (\<lambda>r. strictEq (elemAt r 0) (JStr date)) S = None \<Longrightarrow>
   merge S date slots = S @ [JStr date # slots]"
  by (simp add: merge_def mergeRow_def)

lemma merged_slot:
  assumes "findIndex (\<lambda>r. strictEq (elemAt r 0) (JStr date)) S = Some i"
    and "k < length slots"
  shows "elemAt (merge S date slots ! i) (Suc k) = resolve (elemAt (S ! i) (Suc k)) (slots ! k)"
proof -
  from findIndex_Some_D [OF assms(1)] have "i < length S" by simp
  then have "merge S date slots ! i = updatedRow (S ! i) (JStr date # slots)"
    by (simp add: merge_found [OF assms(1)])
  with assms(2) show ?thesis
    by (simp add: elemAt_def updatedRow_nth)
qed

subsection \<open>The preference law\<close>

text \<open>
  Claim C1. When the series has a row of the date of the new row, at the index \<open>i\<close> that
  \<^verbatim>\<open>findIndex\<close> returns, each numeric slot of the merged row is \<open>resolve e n\<close> of the existing
  slot \<open>e\<close> and the new slot \<open>n\<close> of the same position, and of nothing else: the existing value
  is selected when the new one is Missing and the existing one is not, otherwise the new
  value is selected. So a new value that is not Missing always wins, Missing over Missing is
  Missing, and Missing never overwrites a known value; where the two values differ, the
  merged slot is the existing one if and only if the new one is Missing and the existing one
  is not.
\<close>

theorem C1_preference_law:
  assumes "findIndex (\<lambda>r. strictEq (elemAt r 0) (JStr date)) S = Some i"
    and "k < length slots"
    and "e = elemAt (S ! i) (Suc k)"
    and "n = slots ! k"
    and "merged = elemAt (merge S date slots ! i) (Suc k)"
  shows "merged = resolve e n
       \<and> merged = (if n = Missing \<and> e \<noteq> Missing then e else n)
       \<and> (n \<noteq> Missing \<longrightarrow> merged = n)
       \<and> (n = Missing \<and> e = Missing \<longrightarrow> merged = Missing)
       \<and> (n = Missing \<and> e \<noteq> Missing \<longrightarrow> merged = e)
       \<and> (e \<noteq> n \<longrightarrow> (merged = e \<longleftrightarrow> n = Missing \<and> e \<noteq> Missing))"
proof -
  have "merged = resolve e n"
    using merged_slot [OF assms(1,2)] assms(3-5) by simp
  then show ?thesis
    by (auto simp: resolve_def)
qed

theorem C1_preference_law_witness:
  "findIndex (\<lambda>r. strictEq (elemAt r 0) (JStr ''20250101''))
     [[JStr ''20250101'', JNum (Fin 100), JNum (Fin 105), JNum (Fin 99), JNum (Fin 104),
       JNum (Fin 5000)]] = Some 0
   \<and> merge [[JStr ''20250101'', JNum (Fin 100), JNum (Fin 105), JNum (Fin 99), JNum (Fin 104),
              JNum (Fin 5000)]]
        ''20250101'' [Missing, Missing, Missing, Missing, JNum (Fin 6000)]
     = [[JStr ''20250101'', JNum (Fin 100), JNum (Fin 105), JNum (Fin 99), JNum (Fin 104),
         JNum (Fin 6000)]]
   \<and> elemAt (merge [[JStr ''20250101'', JNum (Fin 100), JNum (Fin 105), JNum (Fin 99),
                      JNum (Fin 104), JNum (Fin 5000)]]
                ''20250101'' [Missing, Missing, Missing, Missing, JNum (Fin 6000)] ! 0) (Suc 3)
     = JNum (Fin 104)"
proof -
  let ?S = "[[JStr ''20250101'', JNum (Fin 100), JNum (Fin 105), JNum (Fin 99), JNum (Fin 104),
              JNum (Fin 5000)]]"
  let ?slots = "[Missing, Missing, Missing, Missing, JNum (Fin 6000)]"
  have f: "findIndex (\<lambda>r. strictEq (elemAt r 0) (JStr ''20250101'')) ?S = Some 0"
    by (simp add: elemAt_def)
  have k: "3 < length ?slots" by simp
  have a: "elemAt (merge ?S ''20250101'' ?slots ! 0) (Suc 3)
      = resolve (elemAt (?S ! 0) (Suc 3)) (?slots ! 3)"
    by (rule C1_preference_law [OF f k refl refl refl, THEN conjunct1])
  have b: "resolve (elemAt (?S ! 0) (Suc 3)) (?slots ! 3) = JNum (Fin 104)"
    by (simp add: resolve_def elemAt_def Missing_def)
  have c: "merge ?S ''20250101'' ?slots
      = [[JStr ''20250101'', JNum (Fin 100), JNum (Fin 105), JNum (Fin 99), JNum (Fin 104),
          JNum (Fin 6000)]]"
    by (simp add: merge_def mergeRow_def updatedRow_def elemAt_def Missing_def upt_rec)
  from f c a [unfolded b] show ?thesis
    by (intro conjI)
qed

subsection \<open>Idempotence\<close>

text \<open>
  Claim C5. Merging a row into a series twice in a row gives the series that merging it once
  gives: \<open>merge (merge S r) r = merge S r\<close>, for every series \<open>S\<close> and every row \<open>r\<close> of
  a date and its slots.
\<close>

theorem C5_merge_idempotent:
  "merge (merge S date slots) date slots = merge S date slots"
proof (cases "findIndex (\<lambda>r. strictEq (elemAt r 0) (JStr date)) S")
  case None
  let ?r = "JStr date # slots"
  have "findIndex (\<lambda>r. strictEq (elemAt r 0) (JStr date)) (S @ [?r]) = Some (length S)"
  proof (rule findIndex_first)
    show "\<forall>j<length S. \<not> strictEq (elemAt ((S @ [?r]) ! j) 0) (JStr date)"
      using None by (auto simp: findIndex_None_iff nth_append)
  qed (simp_all add: elemAt_def)
  then have "merge (S @ [?r]) date slots = S @ [?r]"
    by (simp add: merge_found updatedRow_self)
  then show ?thesis
    by (simp add: merge_not_found [OF None])
next
  case (Some i)
  let ?u = "updatedRow (S ! i) (JStr date # slots)"
  from findIndex_Some_D [OF Some]
  have i: "i < length S" and hit: "rowDate (S ! i) = JStr date"
    and before: "\<forall>j < i. \<not> strictEq (elemAt (S ! j) 0) (JStr date)"
    by (simp_all add: rowDate_def)
  have "findIndex (\<lambda>r. strictEq (elemAt r 0) (JStr date)) (S[i := ?u]) = Some i"
  proof (rule findIndex_first)
    show "i < length (S[i := ?u])" using i by simp
    show "strictEq (elemAt (S[i := ?u] ! i) 0) (JStr date)"
      using i rowDate_updatedRow [OF hit, of slots] by (simp add: rowDate_def)
    show "\<forall>j<i. \<not> strictEq (elemAt (S[i := ?u] ! j) 0) (JStr date)"
      using before by simp
  qed
  then have "merge (S[i := ?u]) date slots = S[i := ?u]"
    using i by (simp add: merge_found updatedRow_updatedRow)
  then show ?thesis
    by (simp add: merge_found [OF Some])
qed

subsection \<open>One row for each date\<close>

lemma dedup_merge: "dedup S \<Longrightarrow> dedup (merge S date slots)"
proof (cases "findIndex (\<lambda>r. strictEq (elemAt r 0) (JStr date)) S")
  case None
  assume "dedup S"
  moreover have "JStr date \<notin> set (map rowDate S)"
    using None by (auto simp: findIndex_None_iff rowDate_def)
  ultimately show ?thesis
    by (simp add: merge_not_found [OF None] dedup_def rowDate_def elemAt_def)
next
  case (Some i)
  assume d: "dedup S"
  from findIndex_Some_D [OF Some]
  have i: "i < length S" and hit: "rowDate (S ! i) = JStr date"
    by (simp_all add: rowDate_def)
  have "map rowDate (S[i := updatedRow (S ! i) (JStr date # slots)]) = map rowDate S"
    using i hit rowDate_updatedRow [OF hit, of slots]
    by (simp add: map_update list_update_same_conv)
  then show ?thesis
    using d by (simp add: merge_found [OF Some] dedup_def)
qed

lemma dedup_mergeAll: "dedup S \<Longrightarrow> dedup (mergeAll S rs)"
  by (induction S rs rule: mergeAll.induct) (simp_all add: dedup_merge)

text \<open>
  Claim C6. A series with at most one row for each date still has at most one row for each
  date after the merge of any row; hence the series that any sequence of merges builds from
  the empty series never holds two rows of the same date.
\<close>

theorem C6_dedup_invariant:
  "(dedup S \<longrightarrow> dedup (merge S date slots)) \<and> dedup (mergeAll [] rs)"
proof
  show "dedup S \<longrightarrow> dedup (merge S date slots)"
    by (simp add: dedup_merge)
  have "dedup []" by (simp add: dedup_def)
  then show "dedup (mergeAll [] rs)" by (rule dedup_mergeAll)
qed

theorem C6_dedup_invariant_witness:
  "dedup [[JStr ''20250101'', JNum (Fin 100)], [JStr ''20250102'', JNum (Fin 101)]]
   \<and> dedup (merge [[JStr ''20250101'', JNum (Fin 100)], [JStr ''20250102'', JNum (Fin 101)]]
              ''20250102'' [Missing])
   \<and> dedup (mergeAll [] [(''20250101'', [JNum (Fin 1)]), (''20250101'', [Missing])])"
proof -
  have d: "dedup [[JStr ''20250101'', JNum (Fin 100)], [JStr ''20250102'', JNum (Fin 101)]]"
    by (simp add: dedup_def rowDate_def elemAt_def)
  from C6_dedup_invariant
         [of "[[JStr ''20250101'', JNum (Fin 100)], [JStr ''20250102'', JNum (Fin 101)]]"
             "''20250102''" "[Missing]"
             "[(''20250101'', [JNum (Fin 1)]), (''20250101'', [Missing])]"]
  show ?thesis using d by simp
qed

section \<open>The normaliser\<close>

subsection \<open>The valid trade price\<close>

lemma parseValue_isNumber:
  "isNumber (parseValue v) \<longleftrightarrow>
     v \<noteq> JStr ''-'' \<and> v \<noteq> JNull \<and> v \<noteq> JUndefined \<and> v \<noteq> JStr '''' \<and> Number v \<noteq> NaN"
  by (cases v) (auto simp: parseValue_def strictEq_def isNaN_def Let_def)

lemma parseValue_not_NaN: "parseValue v \<noteq> JNum NaN"
  by (auto simp: parseValue_def isNaN_def Let_def)

lemma hasValidPrice_iff:
  "hasValidPrice data \<longleftrightarrow> truthy (data_z data) \<and> isNumber (parseValue (data_z data))"
  by (cases "data_z data") (auto simp: hasValidPrice_def parseValue_isNumber isNaN_def)

text \<open>The definitions that evaluate \<^verbatim>\<open>Number\<close> on a string.\<close>

lemmas number_eval =
  stringToNumber_def trim_def isWhiteSpace_def parseSignedDecimal_def parseUnsignedDecimal_def
  parseExponent_def parseRadix_def scale10_def isDigit_def digitsValue_def digitVal_def
  toDouble_def Let_def

lemma stringToNumber_Infinity: "stringToNumber ''Infinity'' = PosInf"
  by (simp add: stringToNumber_def trim_def isWhiteSpace_def parseSignedDecimal_def)

text \<open>
  Claim C8, as the code has it. A record carries a valid trade price if and only if its
  close field is truthy and \<^verbatim>\<open>parseValue\<close> gives a number for it, which is not NaN but may be
  an infinity. For a close field that is a string this is: \<^verbatim>\<open>parseValue\<close> gives a number.
  The dash, the empty string and a string that converts to NaN are not valid, and a truthy
  close field that parses to a finite number is valid.
\<close>

theorem C8_valid_price:
  "(hasValidPrice data \<longleftrightarrow> truthy (data_z data) \<and> isNumber (parseValue (data_z data)))
   \<and> (data_z data = JStr s \<longrightarrow> (hasValidPrice data \<longleftrightarrow> isNumber (parseValue (JStr s))))
   \<and> parseValue (data_z data) \<noteq> JNum NaN
   \<and> (data_z data = JStr ''-'' \<or> data_z data = JStr '''' \<or> data_z data = JUndefined
        \<or> data_z data = JNull \<or> Number (data_z data) = NaN \<longrightarrow> \<not> hasValidPrice data)
   \<and> (truthy (data_z data) \<and> parsesToFiniteNumber data \<longrightarrow> hasValidPrice data)"
proof (intro conjI impI)
  show "hasValidPrice data \<longleftrightarrow> truthy (data_z data) \<and> isNumber (parseValue (data_z data))"
    by (rule hasValidPrice_iff)
  show "hasValidPrice data \<longleftrightarrow> isNumber (parseValue (JStr s))" if "data_z data = JStr s"
    using that by (auto simp: hasValidPrice_iff parseValue_isNumber)
  show "parseValue (data_z data) \<noteq> JNum NaN"
    by (rule parseValue_not_NaN)
  show "\<not> hasValidPrice data"
    if "data_z data = JStr ''-'' \<or> data_z data = JStr '''' \<or> data_z data = JUndefined
        \<or> data_z data = JNull \<or> Number (data_z data) = NaN"
    using that by (auto simp: hasValidPrice_def isNaN_def)
  show "hasValidPrice data" if "truthy (data_z data) \<and> parsesToFiniteNumber data"
  proof -
    from that have "isNumber (parseValue (data_z data))"
      by (cases "parseValue (data_z data)") (auto simp: parsesToFiniteNumber_def)
    with that show ?thesis by (simp add: hasValidPrice_iff)
  qed
qed

text \<open>The close field \<^verbatim>\<open>"104.5"\<close> is valid; the dash is not.\<close>

theorem C8_valid_price_witness:
  "data_z (emptyQuote\<lparr>data_z := JStr ''104.5''\<rparr>) = JStr ''104.5''
   \<and> truthy (data_z (emptyQuote\<lparr>data_z := JStr ''104.5''\<rparr>))
   \<and> parsesToFiniteNumber (emptyQuote\<lparr>data_z := JStr ''104.5''\<rparr>)
   \<and> hasValidPrice (emptyQuote\<lparr>data_z := JStr ''104.5''\<rparr>)
   \<and> data_z (emptyQuote\<lparr>data_z := JStr ''-''\<rparr>) = JStr ''-''
   \<and> \<not> hasValidPrice (emptyQuote\<lparr>data_z := JStr ''-''\<rparr>)"
proof -
  let ?q = "emptyQuote\<lparr>data_z := JStr ''104.5''\<rparr>"
  let ?p = "emptyQuote\<lparr>data_z := JStr ''-''\<rparr>"
  have z: "data_z ?q = JStr ''104.5''" and t: "truthy (data_z ?q)"
    by simp_all
  have f: "parsesToFiniteNumber ?q"
    by (simp add: parsesToFiniteNumber_def parseValue_def strictEq_def isNaN_def number_eval)
  from C8_valid_price [of ?q "''104.5''"] t f have v: "hasValidPrice ?q"
    by blast
  have d: "data_z ?p = JStr ''-''"
    by simp
  from C8_valid_price [of ?p "''-''"] d have "\<not> hasValidPrice ?p"
    by blast
  with z t f v d show ?thesis
    by (intro conjI)
qed

text \<open>
  Claim C8 as the specification states it fails: the close field \<^verbatim>\<open>"Infinity"\<close> is taken for
  a valid trade price, and it does not parse to a finite number.
\<close>

theorem C8_counterexample:
  "hasValidPrice (emptyQuote\<lparr>data_z := JStr ''Infinity''\<rparr>)
   \<and> \<not> parsesToFiniteNumber (emptyQuote\<lparr>data_z := JStr ''Infinity''\<rparr>)
   \<and> parseValue (JStr ''Infinity'') = JNum PosInf"
  by (simp add: hasValidPrice_def parsesToFiniteNumber_def parseValue_def strictEq_def
      isNaN_def stringToNumber_Infinity)

subsection \<open>The date of a record\<close>

lemma isDigit_digitChar [simp]: "isDigit (digitChar n)"
proof -
  have "(48 + n mod 10) mod 256 = 48 + n mod 10"
    by (rule mod_less) arith
  then show ?thesis
    by (simp add: isDigit_def digitChar_def of_char_of)
qed

lemma isDigit_not_separator [simp]:
  "\<not> isDigit (CHR ''-'')" "\<not> isDigit (CHR ''/'')" "\<not> isDigit (CHR ''+'')"
  by (simp_all add: isDigit_def)

lemma digitChar_not_dash [simp]: "digitChar n \<noteq> CHR ''-''"
  using isDigit_digitChar [of n] by (auto simp del: isDigit_digitChar)

lemma upt_2: "[0 ..< 2] = [0, 1]"
  and upt_4: "[0 ..< 4] = [0, 1, 2, 3]"
  and upt_6: "[0 ..< 6] = [0, 1, 2, 3, 4, 5]"
  by (simp_all add: upt_rec)

lemma padDigits_2: "padDigits 2 n = [digitChar (n div 10), digitChar n]"
  by (simp add: padDigits_def upt_2)

lemma padDigits_4:
  "padDigits 4 n = [digitChar (n div 1000), digitChar (n div 100), digitChar (n div 10), digitChar n]"
  by (simp add: padDigits_def upt_4)

lemma padDigits_6:
  "padDigits 6 n =
     [digitChar (n div 100000), digitChar (n div 10000), digitChar (n div 1000),
      digitChar (n div 100), digitChar (n div 10), digitChar n]"
  by (simp add: padDigits_def upt_6)

text \<open>The first ten characters of the ISO string, without the dashes.\<close>

lemma isoDate_short:
  "filter (\<lambda>ch. ch \<noteq> CHR ''-'')
     (take 10 (padDigits 4 y @ ''-'' @ padDigits 2 m @ ''-'' @ padDigits 2 dd @ rest))
   = padDigits 4 y @ padDigits 2 m @ padDigits 2 dd"
  by (simp add: padDigits_2 padDigits_4)

lemma isoDate_long:
  "filter isDigit (filter (\<lambda>ch. ch \<noteq> CHR ''-'')
     (take 10 ((sign # padDigits 6 y) @ ''-'' @ padDigits 2 m @ ''-'' @ padDigits 2 dd @ rest)))
   = filter isDigit [sign] @ padDigits 6 y @ padDigits 2 m"
  by (simp add: padDigits_2 padDigits_6)

lemma toISOString_Some:
  "toISOString (Some t) =
     (case civilFromDays (t div 86400000) of
        (y, m, dd) \<Rightarrow>
          Inr (isoYear y @ ''-'' @ padDigits 2 (nat m) @ ''-'' @ padDigits 2 (nat dd)
               @ (''T'' @ padDigits 2 (nat (t mod 86400000) div 3600000)
                  @ '':'' @ padDigits 2 (nat (t mod 86400000) div 60000 mod 60)
                  @ '':'' @ padDigits 2 (nat (t mod 86400000) div 1000 mod 60)
                  @ ''.'' @ padDigits 3 (nat (t mod 86400000) mod 1000) @ ''Z'')))"
  by (simp add: toISOString_def Let_def split: prod.splits)

text \<open>The date made from \<^verbatim>\<open>tlong\<close> always has eight digits, whatever the year.\<close>

lemma dateFromTlong_digits:
  assumes "dateFromTlong tlong = Inr s"
  shows "length (filter isDigit s) = 8 \<and> s \<noteq> []"
proof -
  from assms obtain t where t: "newDate (Number tlong) = Some t"
    by (cases "newDate (Number tlong)") (auto simp: dateFromTlong_def toISOString_def)
  obtain y m dd where c: "civilFromDays (t div 86400000) = (y, m, dd)"
    by (cases "civilFromDays (t div 86400000)") auto
  define rest where "rest = ''T'' @ padDigits 2 (nat (t mod 86400000) div 3600000)
                  @ '':'' @ padDigits 2 (nat (t mod 86400000) div 60000 mod 60)
                  @ '':'' @ padDigits 2 (nat (t mod 86400000) div 1000 mod 60)
                  @ ''.'' @ padDigits 3 (nat (t mod 86400000) mod 1000) @ ''Z''"
  have s: "s = filter (\<lambda>ch. ch \<noteq> CHR ''-'')
      (take 10 (isoYear y @ ''-'' @ padDigits 2 (nat m) @ ''-'' @ padDigits 2 (nat dd) @ rest))"
    using assms unfolding dateFromTlong_def t toISOString_Some c rest_def by simp
  show ?thesis
  proof (cases "0 \<le> y \<and> y \<le> 9999")
    case True
    then have "isoYear y = padDigits 4 (nat y)"
      by (simp add: isoYear_def)
    then have "s = padDigits 4 (nat y) @ padDigits 2 (nat m) @ padDigits 2 (nat dd)"
      unfolding s by (simp only: isoDate_short)
    then show ?thesis
      by (simp add: padDigits_2 padDigits_4)
  next
    case False
    define sign where "sign = (if y < 0 then CHR ''-'' else CHR ''+'')"
    from False have "isoYear y = sign # padDigits 6 (nat \<bar>y\<bar>)"
      by (auto simp: isoYear_def sign_def)
    then have "filter isDigit s
        = filter isDigit [sign] @ padDigits 6 (nat \<bar>y\<bar>) @ padDigits 2 (nat m)"
      unfolding s by (simp only: isoDate_long)
    moreover have "filter isDigit [sign] = []"
      by (simp add: sign_def)
    ultimately have "filter isDigit s = padDigits 6 (nat \<bar>y\<bar>) @ padDigits 2 (nat m)"
      by simp
    then have "length (filter isDigit s) = 8"
      by (simp add: padDigits_2 padDigits_6)
    then show ?thesis by auto
  qed
qed

lemma filter_digits_no_slash:
  "filter (\<lambda>ch. ch \<noteq> CHR ''/'' \<and> isDigit ch) s = filter isDigit s"
  by (rule filter_cong) auto

lemma format_after_strip:
  assumes "s \<noteq> []"
  shows "(case stripSlashes (JStr s) of Inl e \<Rightarrow> Inl e | Inr v \<Rightarrow> formatDate v)
         = Inr (if filter (\<lambda>ch. ch \<noteq> CHR ''/'') s = [] then None
                else Some (take 8 (filter isDigit s)))"
proof (cases "CHR ''/'' \<in> set s")
  case True
  with assms show ?thesis
    by (simp add: stripSlashes_def formatDate_def filter_digits_no_slash)
next
  case False
  then have "filter (\<lambda>ch. ch \<noteq> CHR ''/'') s = s"
    by (induction s) auto
  with assms False show ?thesis
    by (simp add: stripSlashes_def formatDate_def)
qed

text \<open>The date comes from the date field when it is truthy, and then it must be a string.\<close>

lemma parseDate_of_date_field:
  assumes "truthy (data_d data)" and "parseDate data = Inr r"
  shows "\<exists>ds. data_d data = JStr ds \<and> ds \<noteq> []
           \<and> (r = None \<or> r = Some (take 8 (filter isDigit ds)))"
proof (cases "data_d data")
  case (JStr ds)
  with assms(1) have ne: "ds \<noteq> []" by simp
  from assms JStr format_after_strip [OF ne] show ?thesis
    by (auto simp: parseDate_def split: if_splits)
qed (use assms in \<open>simp_all add: parseDate_def stripSlashes_def\<close>)

text \<open>Otherwise it comes from \<^verbatim>\<open>tlong\<close>, or there is none.\<close>

lemma parseDate_of_tlong:
  assumes "\<not> truthy (data_d data)" and "parseDate data = Inr (Some s)"
  shows "list_all isDigit s \<and> length s = 8"
proof (cases "truthy (data_tlong data)")
  case True
  with assms obtain iso where iso: "dateFromTlong (data_tlong data) = Inr iso"
    by (cases "dateFromTlong (data_tlong data)") (auto simp: parseDate_def)
  from dateFromTlong_digits [OF iso] have d: "length (filter isDigit iso) = 8" and ne: "iso \<noteq> []"
    by simp_all
  from assms True iso format_after_strip [OF ne]
  have "s = take 8 (filter isDigit iso)"
    by (auto simp: parseDate_def split: if_splits)
  with d show ?thesis
    by (auto simp: list_all_iff dest: in_set_takeD)
next
  case False
  with assms show ?thesis
    by (simp add: parseDate_def stripSlashes_def formatDate_def)
qed

lemma parseDate_digits:
  assumes "parseDate data = Inr (Some s)"
  shows "list_all isDigit s \<and> length s \<le> 8
       \<and> (\<not> truthy (data_d data) \<longrightarrow> length s = 8)
       \<and> (\<forall>ds. data_d data = JStr ds \<and> 8 \<le> length (filter isDigit ds) \<longrightarrow> length s = 8)"
proof (cases "truthy (data_d data)")
  case True
  from parseDate_of_date_field [OF True assms]
  obtain ds where "data_d data = JStr ds" "s = take 8 (filter isDigit ds)"
    by auto
  with True show ?thesis
    by (auto simp: list_all_iff dest: in_set_takeD)
next
  case False
  from parseDate_of_tlong [OF False assms] False show ?thesis
    by auto
qed

text \<open>A date field with a digit gives its first eight digits.\<close>

lemma parseDate_of_string:
  assumes "data_d data = JStr ds" and "filter isDigit ds \<noteq> []"
  shows "parseDate data = Inr (Some (take 8 (filter isDigit ds)))"
proof -
  from assms(2) have ne: "ds \<noteq> []"
    by auto
  from assms(2) obtain ch where ch: "ch \<in> set ds" "isDigit ch"
    unfolding filter_empty_conv by blast
  from ch(2) have "ch \<noteq> CHR ''/''"
    by auto
  with ch(1) have "filter (\<lambda>ch. ch \<noteq> CHR ''/'') ds \<noteq> []"
    unfolding filter_empty_conv by blast
  with assms(1) ne format_after_strip [OF ne] show ?thesis
    by (simp add: parseDate_def)
qed

subsection \<open>What is stored for a record\<close>

lemma rowDate_mergeRow:
  "JStr d \<in> set (map rowDate (mergeRow S d (JStr d # slots)))"
proof (cases "findIndex (\<lambda>r. strictEq (elemAt r 0) (JStr d)) S")
  case None
  then show ?thesis
    by (simp add: mergeRow_def rowDate_def elemAt_def)
next
  case (Some i)
  let ?u = "updatedRow (S ! i) (JStr d # slots)"
  from findIndex_Some_D [OF Some]
  have i: "i < length S" and hit: "rowDate (S ! i) = JStr d"
    by (simp_all add: rowDate_def)
  from i have "?u \<in> set (S[i := ?u])"
    by (simp add: set_update_memI)
  moreover have "rowDate ?u = JStr d"
    by (rule rowDate_updatedRow [OF hit])
  ultimately have "JStr d \<in> rowDate ` set (S[i := ?u])"
    by (metis imageI)
  with Some show ?thesis
    by (simp add: mergeRow_def)
qed

lemma rowDate_jsonValue:
  "JStr d \<in> set (map rowDate S) \<Longrightarrow> JStr d \<in> set (map rowDate (map (map jsonValue) S))"
proof -
  assume "JStr d \<in> set (map rowDate S)"
  then obtain r where r: "r \<in> set S" "rowDate r = JStr d"
    by auto
  from r(2) have "r \<noteq> []" and "r ! 0 = JStr d"
    by (simp_all add: rowDate_def elemAt_def split: if_splits)
  then have "rowDate (map jsonValue r) = JStr d"
    by (simp add: rowDate_def elemAt_def)
  with r(1) show ?thesis
    by (auto simp: image_iff intro!: bexI [of _ r])
qed

lemma processBatchData_stored:
  assumes "mapGet bestDataMap (JStr (stock_id stock)) = Some data"
    and "parseDate data = Inr (Some s)" and "s \<noteq> []"
  shows "processBatchData [stock] bestDataMap st =
           (saveData st (stock_id stock)
              (mergeRow (loadExistingData st (stock_id stock)) s (newRow s data)), None)"
  using assms by simp

text \<open>The definitions that evaluate \<^verbatim>\<open>parseDate\<close> and \<^verbatim>\<open>processBatchData\<close> on a record.\<close>

lemmas date_eval =
  parseDate_def stripSlashes_def formatDate_def dateFromTlong_def toISOString_def newDate_def
  isDigit_def emptyQuote_def

lemmas store_eval =
  mapGet_def loadExistingData_def saveData_def mergeRow_def updatedRow_def newRow_def
  parseValue_def strictEq_def isNaN_def elemAt_def

subsection \<open>What a batch writes for a symbol\<close>

lemma storedUnder_saved:
  "storedUnder (saveData st sid (mergeRow S d (newRow d data))) sid d"
proof -
  have "JStr d \<in> set (map rowDate (mergeRow S d (newRow d data)))"
    unfolding newRow_def by (rule rowDate_mergeRow)
  then have "JStr d \<in> set (map rowDate (map (map jsonValue) (mergeRow S d (newRow d data))))"
    by (rule rowDate_jsonValue)
  then show ?thesis
    by (simp add: storedUnder_def saveData_def)
qed

lemma storedUnder_other:
  "sid' \<noteq> sid \<Longrightarrow> storedUnder (saveData st sid' S) sid d = storedUnder st sid d"
  by (simp add: storedUnder_def saveData_def)

text \<open>One step of the loop of \<^verbatim>\<open>processBatchData\<close>, by the cases of its body.\<close>

lemma processBatchData_skip:
  "mapGet bestDataMap (JStr (stock_id stock)) = None \<Longrightarrow>
   processBatchData (stock # rest) bestDataMap st = processBatchData rest bestDataMap st"
  by simp

lemma processBatchData_raise:
  "mapGet bestDataMap (JStr (stock_id stock)) = Some data \<Longrightarrow> parseDate data = Inl e \<Longrightarrow>
   processBatchData (stock # rest) bestDataMap st = (st, Some e)"
  by simp

lemma processBatchData_no_date:
  "mapGet bestDataMap (JStr (stock_id stock)) = Some data \<Longrightarrow> parseDate data = Inr r \<Longrightarrow>
   r = None \<or> r = Some [] \<Longrightarrow>
   processBatchData (stock # rest) bestDataMap st = processBatchData rest bestDataMap st"
  by auto

lemma processBatchData_save:
  "mapGet bestDataMap (JStr (stock_id stock)) = Some data \<Longrightarrow> parseDate data = Inr (Some d) \<Longrightarrow>
   d \<noteq> [] \<Longrightarrow>
   processBatchData (stock # rest) bestDataMap st
     = processBatchData rest bestDataMap
         (saveData st (stock_id stock)
            (mergeRow (loadExistingData st (stock_id stock)) d (newRow d data)))"
  by simp

text \<open>
  A symbol whose best row is missing, or has no date, or raises, keeps its file as it is.
\<close>

lemma not_written:
  assumes "\<And>data s. mapGet bestDataMap (JStr sid) = Some data \<Longrightarrow> parseDate data = Inr (Some s)
             \<Longrightarrow> s = []"
  shows "fst (processBatchData stocks bestDataMap st) sid = st sid"
proof (induction stocks arbitrary: st)
  case Nil
  then show ?case by simp
next
  case (Cons stock stocks)
  show ?case
  proof (cases "mapGet bestDataMap (JStr (stock_id stock))")
    case None
    then show ?thesis
      by (simp only: processBatchData_skip Cons.IH)
  next
    case (Some data)
    show ?thesis
    proof (cases "parseDate data")
      case (Inl e)
      show ?thesis
        by (simp only: processBatchData_raise [OF Some Inl] fst_conv)
    next
      case (Inr r)
      show ?thesis
      proof (cases "r = None \<or> r = Some []")
        case True
        show ?thesis
          by (simp only: processBatchData_no_date [OF Some Inr True] Cons.IH)
      next
        case False
        then obtain d where d: "r = Some d" "d \<noteq> []"
          by auto
        with Inr have p: "parseDate data = Inr (Some d)"
          by simp
        from assms [of data d] Some p d(2) have other: "stock_id stock \<noteq> sid"
          by auto
        let ?st' = "saveData st (stock_id stock)
                      (mergeRow (loadExistingData st (stock_id stock)) d (newRow d data))"
        have "fst (processBatchData stocks bestDataMap ?st') sid = ?st' sid"
          by (rule Cons.IH)
        also have "?st' sid = st sid"
          using other by (simp add: saveData_def)
        finally show ?thesis
          by (simp only: processBatchData_save [OF Some p d(2)])
      qed
    qed
  qed
qed

text \<open>A row that is stored under the date of the best row of a symbol stays to the end.\<close>

lemma stored_kept:
  assumes "mapGet bestDataMap (JStr sid) = Some data" and "parseDate data = Inr (Some s)"
    and "s \<noteq> []"
  shows "storedUnder st sid s \<Longrightarrow> storedUnder (fst (processBatchData stocks bestDataMap st)) sid s"
proof (induction stocks arbitrary: st)
  case Nil
  then show ?case by simp
next
  case (Cons stock stocks)
  show ?case
  proof (cases "stock_id stock = sid")
    case True
    with assms(1) have g: "mapGet bestDataMap (JStr (stock_id stock)) = Some data"
      by simp
    let ?st' = "saveData st (stock_id stock)
                  (mergeRow (loadExistingData st (stock_id stock)) s (newRow s data))"
    have "storedUnder ?st' sid s"
      using True storedUnder_saved [of st sid _ s data] by simp
    then have "storedUnder (fst (processBatchData stocks bestDataMap ?st')) sid s"
      by (rule Cons.IH)
    then show ?thesis
      by (simp only: processBatchData_save [OF g assms(2,3)])
  next
    case other: False
    show ?thesis
    proof (cases "mapGet bestDataMap (JStr (stock_id stock))")
      case None
      from Cons.IH [OF Cons.prems] show ?thesis
        by (simp only: processBatchData_skip [OF None])
    next
      case (Some data')
      show ?thesis
      proof (cases "parseDate data'")
        case (Inl e)
        from Cons.prems show ?thesis
          by (simp only: processBatchData_raise [OF Some Inl] fst_conv)
      next
        case (Inr r)
        show ?thesis
        proof (cases "r = None \<or> r = Some []")
          case True
          from Cons.IH [OF Cons.prems] show ?thesis
            by (simp only: processBatchData_no_date [OF Some Inr True])
        next
          case False
          then obtain d where d: "r = Some d" "d \<noteq> []"
            by auto
          with Inr have p: "parseDate data' = Inr (Some d)"
            by simp
          let ?st' = "saveData st (stock_id stock)
                        (mergeRow (loadExistingData st (stock_id stock)) d (newRow d data'))"
          from Cons.prems other have "storedUnder ?st' sid s"
            by (simp add: storedUnder_other)
          then have "storedUnder (fst (processBatchData stocks bestDataMap ?st')) sid s"
            by (rule Cons.IH)
          then show ?thesis
            by (simp only: processBatchData_save [OF Some p d(2)])
        qed
      qed
    qed
  qed
qed

text \<open>
  When the loop over the batch ends with no exception, the series of every symbol of the
  batch whose best row has a date holds a row of that date.
\<close>

lemma stored_after:
  assumes "mapGet bestDataMap (JStr (stock_id stock)) = Some data"
    and "parseDate data = Inr (Some s)" and "s \<noteq> []"
  shows "stock \<in> set stocks \<Longrightarrow> snd (processBatchData stocks bestDataMap st) = None \<Longrightarrow>
         storedUnder (fst (processBatchData stocks bestDataMap st)) (stock_id stock) s"
proof (induction stocks arbitrary: st)
  case Nil
  then show ?case by simp
next
  case (Cons stock' stocks)
  show ?case
  proof (cases "stock_id stock' = stock_id stock")
    case True
    with assms(1) have g: "mapGet bestDataMap (JStr (stock_id stock')) = Some data"
      by simp
    let ?st' = "saveData st (stock_id stock')
                  (mergeRow (loadExistingData st (stock_id stock')) s (newRow s data))"
    have "storedUnder ?st' (stock_id stock) s"
      using True storedUnder_saved [of st "stock_id stock" _ s data] by simp
    then have "storedUnder (fst (processBatchData stocks bestDataMap ?st')) (stock_id stock) s"
      by (rule stored_kept [OF assms])
    then show ?thesis
      by (simp only: processBatchData_save [OF g assms(2,3)])
  next
    case other: False
    with Cons.prems(1) have mem: "stock \<in> set stocks"
      by auto
    show ?thesis
    proof (cases "mapGet bestDataMap (JStr (stock_id stock'))")
      case None
      from Cons.prems(2) have "snd (processBatchData stocks bestDataMap st) = None"
        by (simp only: processBatchData_skip [OF None])
      from Cons.IH [OF mem this] show ?thesis
        by (simp only: processBatchData_skip [OF None])
    next
      case (Some data')
      show ?thesis
      proof (cases "parseDate data'")
        case (Inl e)
        from Cons.prems(2) show ?thesis
          by (simp only: processBatchData_raise [OF Some Inl]) simp
      next
        case (Inr r)
        show ?thesis
        proof (cases "r = None \<or> r = Some []")
          case True
          from Cons.prems(2) have "snd (processBatchData stocks bestDataMap st) = None"
            by (simp only: processBatchData_no_date [OF Some Inr True])
          from Cons.IH [OF mem this] show ?thesis
            by (simp only: processBatchData_no_date [OF Some Inr True])
        next
          case False
          then obtain d where d: "r = Some d" "d \<noteq> []"
            by auto
          with Inr have p: "parseDate data' = Inr (Some d)"
            by simp
          let ?st' = "saveData st (stock_id stock')
                        (mergeRow (loadExistingData st (stock_id stock')) d (newRow d data'))"
          from Cons.prems(2) have "snd (processBatchData stocks bestDataMap ?st') = None"
            by (simp only: processBatchData_save [OF Some p d(2)])
          from Cons.IH [OF mem this] show ?thesis
            by (simp only: processBatchData_save [OF Some p d(2)])
        qed
      qed
    qed
  qed
qed

text \<open>
  Claim C4, as the code has it. When the normalisation of the date of a record returns, the
  result is either undatable (\<^verbatim>\<open>null\<close> or the empty string) or a string of one to eight
  decimal digits. The date has exactly eight digits when it is derived from the timestamp
  field, and when the date field holds at least eight digits; a non-empty date field gives
  its first eight digits, so a date field with fewer digits gives a date of that many
  digits. When the record is the best row of a symbol of the batch: if it is undatable,
  nothing is written for the symbol; if it has a date and the loop over the batch ends
  without an exception, the stored series of the symbol holds a row of that date.
\<close>

theorem C4_date_normalisation:
  assumes "parseDate data = Inr r"
  shows "(\<forall>s. r = Some s \<longrightarrow>
            list_all isDigit s \<and> length s \<le> 8
            \<and> (\<not> truthy (data_d data) \<longrightarrow> length s = 8)
            \<and> (\<forall>ds. data_d data = JStr ds \<and> 8 \<le> length (filter isDigit ds) \<longrightarrow> length s = 8))
       \<and> (\<forall>ds. data_d data = JStr ds \<and> filter isDigit ds \<noteq> [] \<longrightarrow>
              r = Some (take 8 (filter isDigit ds))
              \<and> length (take 8 (filter isDigit ds)) = min 8 (length (filter isDigit ds)))
       \<and> (mapGet bestDataMap (JStr (stock_id stock)) = Some data \<longrightarrow>
            (r = None \<or> r = Some [] \<longrightarrow>
               fst (processBatchData stocks bestDataMap st) (stock_id stock) = st (stock_id stock))
            \<and> (\<forall>s. r = Some s \<and> s \<noteq> [] \<and> stock \<in> set stocks
                    \<and> snd (processBatchData stocks bestDataMap st) = None \<longrightarrow>
                  storedUnder (fst (processBatchData stocks bestDataMap st)) (stock_id stock) s))"
proof (intro conjI allI impI)
  fix s assume s: "r = Some s"
  with assms have p: "parseDate data = Inr (Some s)" by simp
  from parseDate_digits [OF p]
  show "list_all isDigit s" and "length s \<le> 8"
    by simp_all
  show "length s = 8" if "\<not> truthy (data_d data)"
    using parseDate_digits [OF p] that by simp
  show "length s = 8" if "data_d data = JStr ds \<and> 8 \<le> length (filter isDigit ds)" for ds
    using parseDate_digits [OF p] that by blast
next
  fix ds assume d: "data_d data = JStr ds \<and> filter isDigit ds \<noteq> []"
  then have "parseDate data = Inr (Some (take 8 (filter isDigit ds)))"
    by (intro parseDate_of_string) simp_all
  with assms show "r = Some (take 8 (filter isDigit ds))"
    by simp
  show "length (take 8 (filter isDigit ds)) = min 8 (length (filter isDigit ds))"
    by simp
next
  assume g: "mapGet bestDataMap (JStr (stock_id stock)) = Some data"
  show "fst (processBatchData stocks bestDataMap st) (stock_id stock) = st (stock_id stock)"
    if "r = None \<or> r = Some []"
  proof (rule not_written)
    fix data' s
    assume "mapGet bestDataMap (JStr (stock_id stock)) = Some data'"
      and "parseDate data' = Inr (Some s)"
    with g assms that show "s = []"
      by auto
  qed
  fix s
  assume "r = Some s \<and> s \<noteq> [] \<and> stock \<in> set stocks
          \<and> snd (processBatchData stocks bestDataMap st) = None"
  with assms
  show "storedUnder (fst (processBatchData stocks bestDataMap st)) (stock_id stock) s"
    by (intro stored_after [OF g]) simp_all
qed

text \<open>
  The date field \<^verbatim>\<open>"2025/12/5"\<close> of the best row of the symbol 2330 gives the date
  \<^verbatim>\<open>"2025125"\<close> of seven digits; in the batch of the symbols 2317 and 2330 the series of
  the symbol 2330 is stored with a row of that date.
\<close>

theorem C4_date_normalisation_witness:
  "parseDate shortDate2330 = Inr (Some ''2025125'')
   \<and> data_d shortDate2330 = JStr ''2025/12/5''
   \<and> mapGet [JStr ''2330'' \<mapsto> Some shortDate2330] (JStr (stock_id tsmc)) = Some shortDate2330
   \<and> tsmc \<in> set [honhai, tsmc]
   \<and> snd (processBatchData [honhai, tsmc] [JStr ''2330'' \<mapsto> Some shortDate2330] Map.empty) = None
   \<and> storedUnder
        (fst (processBatchData [honhai, tsmc] [JStr ''2330'' \<mapsto> Some shortDate2330] Map.empty))
        (stock_id tsmc) ''2025125''"
proof -
  let ?best = "[JStr ''2330'' \<mapsto> Some shortDate2330]"
  have p: "parseDate shortDate2330 = Inr (Some ''2025125'')"
    by (simp add: shortDate2330_def date_eval)
  have d: "data_d shortDate2330 = JStr ''2025/12/5''"
    by (simp add: shortDate2330_def emptyQuote_def)
  have g: "mapGet ?best (JStr (stock_id tsmc)) = Some shortDate2330"
    by (simp add: tsmc_def mapGet_def)
  have h: "mapGet ?best (JStr (stock_id honhai)) = None"
    by (simp add: honhai_def mapGet_def)
  have m: "tsmc \<in> set [honhai, tsmc]"
    by simp
  have ne: "''2025125'' \<noteq> []"
    by simp
  have n: "snd (processBatchData [honhai, tsmc] ?best Map.empty) = None"
    by (simp only: processBatchData_skip [OF h] processBatchData_save [OF g p ne]
        processBatchData.simps(1) snd_conv)
  from C4_date_normalisation [OF p, of ?best tsmc "[honhai, tsmc]" Map.empty] g m n
  have "storedUnder (fst (processBatchData [honhai, tsmc] ?best Map.empty)) (stock_id tsmc)
          ''2025125''"
    by blast
  with p d g m n show ?thesis
    by (intro conjI)
qed

text \<open>
  Claim C4 as the specification states it fails: the date field \<^verbatim>\<open>"2025-1-5"\<close> gives the
  date \<^verbatim>\<open>"202515"\<close> of six digits, and the row is stored under it.
\<close>

theorem C4_counterexample:
  "parseDate (emptyQuote\<lparr>data_c := JStr ''2330'', data_d := JStr ''2025-1-5''\<rparr>)
     = Inr (Some ''202515'')
   \<and> length ''202515'' < 8
   \<and> processBatchData [\<lparr>stock_id = ''2330'', stock_name = ''TSMC'', stock_type = ''twse''\<rparr>]
        [JStr ''2330'' \<mapsto> Some (emptyQuote\<lparr>data_c := JStr ''2330'', data_d := JStr ''2025-1-5''\<rparr>)]
        Map.empty
     = ([''2330'' \<mapsto> Content [[JStr ''202515'', JStr ''-'', JStr ''-'', JStr ''-'', JStr ''-'',
                                  JStr ''-'']]], None)"
proof -
  let ?q = "emptyQuote\<lparr>data_c := JStr ''2330'', data_d := JStr ''2025-1-5''\<rparr>"
  let ?stock = "\<lparr>stock_id = ''2330'', stock_name = ''TSMC'', stock_type = ''twse''\<rparr>"
  have p: "parseDate ?q = Inr (Some ''202515'')"
    by (simp add: date_eval)
  have g: "mapGet [JStr ''2330'' \<mapsto> Some ?q] (JStr (stock_id ?stock)) = Some ?q"
    by (simp add: mapGet_def)
  have ne: "''202515'' \<noteq> []"
    by simp
  have "processBatchData [?stock] [JStr ''2330'' \<mapsto> Some ?q] Map.empty
      = ([''2330'' \<mapsto> Content [[JStr ''202515'', JStr ''-'', JStr ''-'', JStr ''-'', JStr ''-'',
                                   JStr ''-'']]], None)"
    unfolding processBatchData_stored [OF g p ne]
    by (simp add: store_eval emptyQuote_def)
  with p show ?thesis
    by simp
qed

section \<open>The batch poller\<close>

subsection \<open>One record\<close>

lemma observe_no_code: "\<not> truthy (data_c data) \<Longrightarrow> observe st data = st"
  by (simp add: observe_def Let_def)

lemma observe_valid:
  "truthy (data_c data) \<Longrightarrow> hasValidPrice data \<Longrightarrow>
   observe (best, valid) data = (best(data_c data \<mapsto> Some data), setAdd valid (data_c data))"
  by (simp add: observe_def Let_def)

lemma observe_first_placeholder:
  "truthy (data_c data) \<Longrightarrow> \<not> hasValidPrice data \<Longrightarrow> mapGet best (data_c data) = None \<Longrightarrow>
   observe (best, valid) data = (best(data_c data \<mapsto> Some data), valid)"
  by (simp add: observe_def Let_def)

lemma observe_later_placeholder:
  "truthy (data_c data) \<Longrightarrow> \<not> hasValidPrice data \<Longrightarrow> mapGet best (data_c data) = Some old \<Longrightarrow>
   observe (best, valid) data = (best, valid)"
  by (simp add: observe_def Let_def)

lemma mapGet_upd [simp]: "mapGet (m(k \<mapsto> Some d)) k = Some d"
  by (simp add: mapGet_def)

lemma mapGet_upd_other [simp]: "k' \<noteq> k \<Longrightarrow> mapGet (m(k \<mapsto> e)) k' = mapGet m k'"
  by (simp add: mapGet_def)

lemma observe_other_key: "data_c data \<noteq> k \<Longrightarrow> fst (observe st data) k = fst st k"
  by (simp add: observe_def Let_def)

lemma observeAll_Nil [simp]: "observeAll st [] = st"
  by (simp add: observeAll_def)

lemma observeAll_Cons [simp]: "observeAll st (data # ds) = observeAll (observe st data) ds"
  by (simp add: observeAll_def)

lemma observeAll_other_key:
  "\<forall>data \<in> set ds. data_c data \<noteq> k \<Longrightarrow> fst (observeAll st ds) k = fst st k"
  by (induction ds arbitrary: st) (simp_all add: observe_other_key)

subsection \<open>The symbols with a valid price\<close>

lemma observe_valid_ids:
  "set (snd (observe st data))
     = set (snd st) \<union> (if truthy (data_c data) \<and> hasValidPrice data then {data_c data} else {})"
  by (auto simp: observe_def setAdd_def Let_def)

lemma observe_distinct: "distinct (snd st) \<Longrightarrow> distinct (snd (observe st data))"
  by (auto simp: observe_def setAdd_def Let_def)

lemma observeAll_valid_ids:
  "set (snd (observeAll st ds))
     = set (snd st) \<union> {data_c data | data. data \<in> set ds \<and> truthy (data_c data) \<and> hasValidPrice data}"
  by (induction ds arbitrary: st) (auto simp: observe_valid_ids split: if_splits)

lemma observeAll_distinct: "distinct (snd st) \<Longrightarrow> distinct (snd (observeAll st ds))"
  by (induction ds arbitrary: st) (simp_all add: observe_distinct)

text \<open>One pass of the loop that ends with every symbol counted as satisfied.\<close>

lemma pollLoop_early_exit:
  assumes "clock w - startTime < BATCH_FETCH_TIME"
    and "length (snd (observeAll st (snd (src (calls w))))) = length stocks"
  shows "pollLoop src stocks startTime w st
       = (fetched src w, observeAll st (snd (src (calls w))))"
  using assms by (subst pollLoop.simps) (simp add: Let_def)

lemma all_satisfied_length:
  assumes "distinct (map stock_id stocks)"
    and "\<forall>s \<in> set stocks. stock_id s \<noteq> []
           \<and> (\<exists>data \<in> set ds. data_c data = JStr (stock_id s) \<and> hasValidPrice data)"
    and "\<forall>data \<in> set ds. truthy (data_c data) \<and> hasValidPrice data
           \<longrightarrow> data_c data \<in> set (map (\<lambda>s. JStr (stock_id s)) stocks)"
  shows "set (snd (observeAll (best, []) ds)) = set (map (\<lambda>s. JStr (stock_id s)) stocks)"
    and "length (snd (observeAll (best, []) ds)) = length stocks"
proof -
  let ?ids = "map (\<lambda>s. JStr (stock_id s)) stocks"
  have sub: "set ?ids \<subseteq> set (snd (observeAll (best, []) ds))"
  proof
    fix k assume "k \<in> set ?ids"
    then obtain s where s: "s \<in> set stocks" "k = JStr (stock_id s)"
      by auto
    with assms(2) obtain data where "data \<in> set ds" "data_c data = k" "hasValidPrice data"
      and "stock_id s \<noteq> []"
      by blast
    then have "data \<in> set ds \<and> truthy (data_c data) \<and> hasValidPrice data" and "k = data_c data"
      using s(2) by simp_all
    then show "k \<in> set (snd (observeAll (best, []) ds))"
      unfolding observeAll_valid_ids by blast
  qed
  have "set (snd (observeAll (best, []) ds)) \<subseteq> set ?ids"
    using assms(3) by (auto simp: observeAll_valid_ids)
  with sub show eq: "set (snd (observeAll (best, []) ds)) = set ?ids"
    by blast
  have "distinct (snd (observeAll (best, []) ds))"
    by (rule observeAll_distinct) simp
  then have "length (snd (observeAll (best, []) ds)) = card (set ?ids)"
    using eq by (metis distinct_card)
  moreover have "distinct ?ids"
    using assms(1) by (simp add: distinct_map inj_on_def comp_def)
  then have "card (set ?ids) = length ?ids"
    by (rule distinct_card)
  ultimately show "length (snd (observeAll (best, []) ds)) = length stocks"
    by simp
qed

subsection \<open>The loop\<close>

lemma pollLoop_done:
  "\<not> clock w - startTime < BATCH_FETCH_TIME \<Longrightarrow> pollLoop src stocks startTime w st = (w, st)"
  by (subst pollLoop.simps) simp

lemma pollLoop_sleep:
  assumes "clock w - startTime < BATCH_FETCH_TIME"
    and "length (snd (observeAll st (snd (src (calls w))))) \<noteq> length stocks"
    and "clock (fetched src w) - startTime < BATCH_FETCH_TIME"
  shows "pollLoop src stocks startTime w st
       = pollLoop src stocks startTime (delay RETRY_INTERVAL (fetched src w))
           (observeAll st (snd (src (calls w))))"
  using assms by (subst pollLoop.simps) (simp add: Let_def)

lemma pollLoop_last:
  assumes "clock w - startTime < BATCH_FETCH_TIME"
    and "length (snd (observeAll st (snd (src (calls w))))) \<noteq> length stocks"
    and "\<not> clock (fetched src w) - startTime < BATCH_FETCH_TIME"
  shows "pollLoop src stocks startTime w st
       = (fetched src w, observeAll st (snd (src (calls w))))"
  using assms by (subst pollLoop.simps) (simp add: Let_def pollLoop_done)

lemma calls_fetched [simp]: "calls (fetched src w) = Suc (calls w)"
  by (simp add: fetched_def)

lemma calls_delay [simp]: "calls (delay ms w) = calls w"
  by (simp add: delay_def)

lemma observeAll_append: "observeAll st (xs @ ys) = observeAll (observeAll st xs) ys"
  by (simp add: observeAll_def)

lemma observed_empty [simp]: "observed src a a = []"
  by (simp add: observed_def)

lemma observed_step: "a < b \<Longrightarrow> observed src a b = snd (src a) @ observed src (Suc a) b"
  by (simp add: observed_def upt_conv_Cons)

lemma observed_one [simp]: "observed src a (Suc a) = snd (src a)"
  by (simp add: observed_def)

text \<open>
  The poller returns the fold of the loop body over the records of all the responses it
  received, in their order.
\<close>

lemma pollLoop_observed:
  "calls w \<le> calls (fst (pollLoop src stocks startTime w st))
   \<and> snd (pollLoop src stocks startTime w st)
     = observeAll st (observed src (calls w) (calls (fst (pollLoop src stocks startTime w st))))"
proof (induction src stocks startTime w st rule: pollLoop.induct)
  case (1 src stocks startTime w st)
  let ?st' = "observeAll st (snd (src (calls w)))"
  show ?case
  proof (cases "clock w - startTime < BATCH_FETCH_TIME")
    case False
    then show ?thesis by (simp add: pollLoop_done)
  next
    case inTime: True
    show ?thesis
    proof (cases "length (snd ?st') = length stocks")
      case True
      with inTime show ?thesis by (simp add: pollLoop_early_exit)
    next
      case more: False
      show ?thesis
      proof (cases "clock (fetched src w) - startTime < BATCH_FETCH_TIME")
        case True
        let ?r = "pollLoop src stocks startTime (delay RETRY_INTERVAL (fetched src w)) ?st'"
        from "1.IH"(1) [OF inTime refl refl more True]
        have le: "Suc (calls w) \<le> calls (fst ?r)"
          and eq: "snd ?r = observeAll ?st' (observed src (Suc (calls w)) (calls (fst ?r)))"
          by simp_all
        from le have "observed src (calls w) (calls (fst ?r))
            = snd (src (calls w)) @ observed src (Suc (calls w)) (calls (fst ?r))"
          by (intro observed_step) simp
        with le eq show ?thesis
          by (simp add: pollLoop_sleep [OF inTime more True] observeAll_append)
      next
        case False
        with inTime more show ?thesis by (simp add: pollLoop_last)
      qed
    qed
  qed
qed

lemma initialBest_none: "mapGet (initialBest stocks) k = None"
proof -
  have "mapGet (foldl (\<lambda>m stock. m(JStr (stock_id stock) \<mapsto> None)) m stocks) k = None"
    if "mapGet m k = None" for m
    using that by (induction stocks arbitrary: m) (simp_all add: mapGet_def)
  then show ?thesis
    by (simp add: initialBest_def mapGet_def)
qed

subsection \<open>The examples\<close>

lemma valid_examples:
  "hasValidPrice priced2330" "hasValidPrice priced2317"
  "\<not> hasValidPrice placeholderA" "\<not> hasValidPrice placeholderB"
  by (simp_all add: hasValidPrice_def priced2330_def priced2317_def placeholderA_def
      placeholderB_def isNaN_def number_eval)

lemma code_examples [simp]:
  "data_c priced2330 = JStr ''2330''" "data_c priced2317 = JStr ''2317''"
  "data_c placeholderA = JStr ''2330''" "data_c placeholderB = JStr ''2330''"
  "stock_id tsmc = ''2330''" "stock_id honhai = ''2317''"
  by (simp_all add: priced2330_def priced2317_def placeholderA_def placeholderB_def tsmc_def
      honhai_def)

lemma world0_fields [simp]: "clock world0 = 0" "calls world0 = 0" "sleeps world0 = 0"
  by (simp_all add: world0_def)

text \<open>The definitions that evaluate the poller on a source of responses.\<close>

lemmas poll_eval =
  fetchBatchWithRetry_def pollLoop.simps initialBest_def observeAll_def observe_def setAdd_def
  mapGet_def fetched_def delay_def BATCH_FETCH_TIME_def RETRY_INTERVAL_def Let_def

subsection \<open>The best row of a symbol after a run\<close>

lemma recordsOf_Cons:
  "recordsOf k (data # ds) = (if data_c data = k then data # recordsOf k ds else recordsOf k ds)"
  by (simp add: recordsOf_def)

lemma validOf_Cons:
  "validOf k (data # ds)
     = (if data_c data = k \<and> hasValidPrice data then data # validOf k ds else validOf k ds)"
  by (simp add: validOf_def)

text \<open>
  The best row of a symbol after a list of records: the last record of the symbol with a
  valid price; when there is none, the best row it had; and when it had none, the first
  record of the symbol.
\<close>

lemma best_after_records:
  assumes "truthy k"
  shows "mapGet (fst (foldl observe (best, valid) ds)) k
         = (if validOf k ds \<noteq> [] then Some (last (validOf k ds))
            else (case mapGet best k of
                    Some old \<Rightarrow> Some old
                  | None \<Rightarrow> (case recordsOf k ds of [] \<Rightarrow> None | x # xs \<Rightarrow> Some x)))"
proof (induction ds arbitrary: best valid)
  case Nil
  then show ?case
    by (simp add: validOf_def recordsOf_def split: option.splits)
next
  case (Cons data ds)
  obtain best' valid' where o: "observe (best, valid) data = (best', valid')"
    by (cases "observe (best, valid) data")
  note ih = Cons.IH [of best' valid']
  show ?case
  proof (cases "data_c data = k")
    case False
    then have "best' k = best k"
      using observe_other_key [of data k "(best, valid)"] o by simp
    then have "mapGet best' k = mapGet best k"
      by (simp add: mapGet_def)
    with ih False show ?thesis
      by (auto simp: o recordsOf_Cons validOf_Cons split: option.splits)
  next
    case True
    with assms have t: "truthy (data_c data)"
      by simp
    show ?thesis
    proof (cases "hasValidPrice data")
      case valid: True
      from observe_valid [OF t valid, of best valid] o True
      have "mapGet best' k = Some data"
        by auto
      with ih True valid show ?thesis
        by (auto simp: o recordsOf_Cons validOf_Cons split: option.splits)
    next
      case invalid: False
      show ?thesis
      proof (cases "mapGet best k")
        case None
        with True have "mapGet best (data_c data) = None"
          by simp
        from observe_first_placeholder [OF t invalid this, of valid] o True
        have "mapGet best' k = Some data"
          by auto
        with ih True invalid None show ?thesis
          by (auto simp: o recordsOf_Cons validOf_Cons split: option.splits)
      next
        case (Some old)
        with True have "mapGet best (data_c data) = Some old"
          by simp
        from observe_later_placeholder [OF t invalid this, of valid] o
        have "best' = best"
          by simp
        with ih True invalid Some show ?thesis
          by (auto simp: o recordsOf_Cons validOf_Cons split: option.splits)
      qed
    qed
  qed
qed

lemma valid_after_records:
  "truthy k \<Longrightarrow> k \<in> set (snd (foldl observe (best, valid) ds)) \<longleftrightarrow> k \<in> set valid \<or> validOf k ds \<noteq> []"
  using observeAll_valid_ids [of "(best, valid)" ds]
  by (auto simp: observeAll_def validOf_def filter_empty_conv)

lemma poll_run:
  "snd (fetchBatchWithRetry src stocks w)
     = foldl observe (initialBest stocks, [])
         (observed src (calls w) (calls (fst (fetchBatchWithRetry src stocks w))))"
  unfolding fetchBatchWithRetry_def
  using pollLoop_observed [of w src stocks "clock w" "(initialBest stocks, [])"]
  by (simp add: observeAll_def)

lemma poll_best_row:
  assumes "truthy k"
    and "obs = observed src (calls w) (calls (fst (fetchBatchWithRetry src stocks w)))"
  shows "mapGet (fst (snd (fetchBatchWithRetry src stocks w))) k
         = (if validOf k obs \<noteq> [] then Some (last (validOf k obs))
            else (case recordsOf k obs of [] \<Rightarrow> None | x # xs \<Rightarrow> Some x))"
    and "k \<in> set (snd (snd (fetchBatchWithRetry src stocks w))) \<longleftrightarrow> validOf k obs \<noteq> []"
proof -
  have run: "snd (fetchBatchWithRetry src stocks w) = foldl observe (initialBest stocks, []) obs"
    unfolding assms(2) by (rule poll_run)
  from best_after_records [OF assms(1), of "initialBest stocks" "[]" obs]
  show "mapGet (fst (snd (fetchBatchWithRetry src stocks w))) k
      = (if validOf k obs \<noteq> [] then Some (last (validOf k obs))
         else (case recordsOf k obs of [] \<Rightarrow> None | x # xs \<Rightarrow> Some x))"
    by (simp add: run initialBest_none)
  from valid_after_records [OF assms(1), of "initialBest stocks" "[]" obs]
  show "k \<in> set (snd (snd (fetchBatchWithRetry src stocks w))) \<longleftrightarrow> validOf k obs \<noteq> []"
    by (simp add: run)
qed

lemma valid_are_records: "validOf k ds \<noteq> [] \<Longrightarrow> recordsOf k ds \<noteq> []"
  by (auto simp: validOf_def recordsOf_def filter_empty_conv)

text \<open>
  Claim C7. Let \<open>obs\<close> be the records of the responses of a batch polling run, in their
  order. The run returns the fold of the loop body over \<open>obs\<close> from the empty state. For each
  record of \<open>obs\<close> that carries a symbol code, with the state that the records before it left:
  when its price is valid, the record becomes the best row of the symbol whatever was there,
  and the symbol is marked satisfied; when its price is not valid, the record becomes the
  best row only if the symbol has no best row yet, and the marks do not change; the best
  rows of the other symbols do not change. So at the end of the run the best row of a symbol
  is the last of its records with a valid price, and the first of its records when none has
  a valid price; the symbol is marked satisfied if and only if one of its records has a
  valid price.
\<close>

theorem C7_best_row_update:
  assumes "obs = observed src (calls w) (calls (fst (fetchBatchWithRetry src stocks w)))"
  shows "snd (fetchBatchWithRetry src stocks w) = foldl observe (initialBest stocks, []) obs
       \<and> (\<forall>pre data post before after.
             obs = pre @ data # post \<and> truthy (data_c data)
             \<and> before = foldl observe (initialBest stocks, []) pre
             \<and> after = foldl observe (initialBest stocks, []) (pre @ [data]) \<longrightarrow>
               (hasValidPrice data \<longrightarrow>
                  mapGet (fst after) (data_c data) = Some data
                  \<and> data_c data \<in> set (snd after))
               \<and> (\<not> hasValidPrice data \<longrightarrow>
                    snd after = snd before
                    \<and> mapGet (fst after) (data_c data)
                        = (case mapGet (fst before) (data_c data) of
                             None \<Rightarrow> Some data
                           | Some old \<Rightarrow> Some old))
               \<and> (\<forall>k. k \<noteq> data_c data \<longrightarrow> fst after k = fst before k))
       \<and> (\<forall>k. truthy k \<longrightarrow>
             mapGet (fst (snd (fetchBatchWithRetry src stocks w))) k
               = (if validOf k obs \<noteq> [] then Some (last (validOf k obs))
                  else (case recordsOf k obs of [] \<Rightarrow> None | x # xs \<Rightarrow> Some x))
             \<and> (k \<in> set (snd (snd (fetchBatchWithRetry src stocks w))) \<longleftrightarrow> validOf k obs \<noteq> []))"
proof (intro conjI allI impI)
  show run: "snd (fetchBatchWithRetry src stocks w) = foldl observe (initialBest stocks, []) obs"
    unfolding assms by (rule poll_run)
  {
    fix k :: jsval
    assume t: "truthy k"
    from best_after_records [OF t, of "initialBest stocks" "[]" obs]
    show "mapGet (fst (snd (fetchBatchWithRetry src stocks w))) k
        = (if validOf k obs \<noteq> [] then Some (last (validOf k obs))
           else (case recordsOf k obs of [] \<Rightarrow> None | x # xs \<Rightarrow> Some x))"
      by (simp add: run initialBest_none)
    from valid_after_records [OF t, of "initialBest stocks" "[]" obs]
    show "k \<in> set (snd (snd (fetchBatchWithRetry src stocks w))) \<longleftrightarrow> validOf k obs \<noteq> []"
      by (simp add: run)
  }
  fix pre data post before after
  assume a: "obs = pre @ data # post \<and> truthy (data_c data)
             \<and> before = foldl observe (initialBest stocks, []) pre
             \<and> after = foldl observe (initialBest stocks, []) (pre @ [data])"
  then have t: "truthy (data_c data)" and step: "after = observe before data"
    by simp_all
  obtain best valid where b: "before = (best, valid)"
    by (cases before)
  {
    assume v: "hasValidPrice data"
    from observe_valid [OF t v, of best valid]
    show "mapGet (fst after) (data_c data) = Some data"
      and "data_c data \<in> set (snd after)"
      by (simp_all add: step b setAdd_def)
  }
  {
    assume n: "\<not> hasValidPrice data"
    show "snd after = snd before"
      using t n by (simp add: step b observe_def Let_def)
    show "mapGet (fst after) (data_c data)
        = (case mapGet (fst before) (data_c data) of None \<Rightarrow> Some data | Some old \<Rightarrow> Some old)"
      using t n by (simp add: step b observe_def Let_def split: option.splits)
  }
  fix k
  assume "k \<noteq> data_c data"
  then show "fst after k = fst before k"
    using observe_other_key [of data k before] by (simp add: step)
qed

lemma priced_then_placeholder_run:
  "fetchBatchWithRetry pricedThenPlaceholder [tsmc, honhai] world0
     = (\<lparr>clock = 33000, calls = 2, sleeps = 1\<rparr>,
        [JStr ''2330'' \<mapsto> Some priced2330, JStr ''2317'' \<mapsto> None], [JStr ''2330''])"
  by (simp add: poll_eval pricedThenPlaceholder_def valid_examples world0_def fun_upd_twist)

text \<open>
  The provider answers the first request with a price for the symbol 2330 and the second
  with a placeholder: the record with the price is the best row at the end of the run.
\<close>

theorem C7_best_row_update_witness:
  "[priced2330, placeholderA]
     = observed pricedThenPlaceholder (calls world0)
         (calls (fst (fetchBatchWithRetry pricedThenPlaceholder [tsmc, honhai] world0)))
   \<and> truthy (JStr ''2330'')
   \<and> validOf (JStr ''2330'') [priced2330, placeholderA] = [priced2330]
   \<and> mapGet (fst (snd (fetchBatchWithRetry pricedThenPlaceholder [tsmc, honhai] world0)))
        (JStr ''2330'')
     = Some priced2330
   \<and> JStr ''2330'' \<in> set (snd (snd (fetchBatchWithRetry pricedThenPlaceholder [tsmc, honhai] world0)))"
proof -
  let ?r = "fetchBatchWithRetry pricedThenPlaceholder [tsmc, honhai] world0"
  have o: "[priced2330, placeholderA]
      = observed pricedThenPlaceholder (calls world0) (calls (fst ?r))"
    by (simp add: priced_then_placeholder_run observed_def pricedThenPlaceholder_def upt_rec)
  have t: "truthy (JStr ''2330'')"
    by simp
  have v: "validOf (JStr ''2330'') [priced2330, placeholderA] = [priced2330]"
    by (simp add: validOf_def valid_examples)
  note r = C7_best_row_update [OF o, THEN conjunct2, THEN conjunct2, rule_format, OF t]
  have b: "mapGet (fst (snd ?r)) (JStr ''2330'') = Some priced2330"
    using r [THEN conjunct1] by (simp add: v)
  have s: "JStr ''2330'' \<in> set (snd (snd ?r))"
    using r [THEN conjunct2] by (simp add: v)
  from o t v b s show ?thesis
    by (intro conjI)
qed

subsection \<open>Leaving the loop after the first tick\<close>

text \<open>
  When the symbol codes of the batch are non-empty and pairwise distinct, and the response
  of the first tick has a record with a valid price for every symbol of the batch and for
  no other symbol code, the poller makes one request and no call of \<^verbatim>\<open>delay\<close>.
\<close>

lemma early_exit_when_counts_agree:
  assumes "distinct (map stock_id stocks)"
    and "\<forall>s \<in> set stocks. stock_id s \<noteq> []
           \<and> (\<exists>data \<in> set (snd (src (calls w))).
                 data_c data = JStr (stock_id s) \<and> hasValidPrice data)"
    and "\<forall>data \<in> set (snd (src (calls w))). truthy (data_c data) \<and> hasValidPrice data
           \<longrightarrow> data_c data \<in> set (map (\<lambda>s. JStr (stock_id s)) stocks)"
  shows "fetchBatchWithRetry src stocks w
           = (fetched src w, observeAll (initialBest stocks, []) (snd (src (calls w))))
       \<and> calls (fst (fetchBatchWithRetry src stocks w)) = Suc (calls w)
       \<and> sleeps (fst (fetchBatchWithRetry src stocks w)) = sleeps w
       \<and> clock (fst (fetchBatchWithRetry src stocks w)) = clock w + int (fst (src (calls w)))
       \<and> set (snd (snd (fetchBatchWithRetry src stocks w)))
           = set (map (\<lambda>s. JStr (stock_id s)) stocks)"
proof -
  have t: "clock w - clock w < BATCH_FETCH_TIME"
    by (simp add: BATCH_FETCH_TIME_def)
  note sat = all_satisfied_length [OF assms, of "initialBest stocks"]
  have "fetchBatchWithRetry src stocks w
      = (fetched src w, observeAll (initialBest stocks, []) (snd (src (calls w))))"
    unfolding fetchBatchWithRetry_def
    by (rule pollLoop_early_exit
          [where w = w and startTime = "clock w" and st = "(initialBest stocks, [])"
             and src = src and stocks = stocks, OF t sat(2)])
  then show ?thesis
    using sat(1) by (simp add: fetched_def)
qed

text \<open>
  Claim C9 fails on the code. The loop is left when the number of symbol codes with a valid
  price equals the length of the batch (line 439), not when every symbol of the batch has a
  valid price. For the batch that names the symbol 2330 twice, the first response has a
  valid price for every symbol of the batch, and the poller sleeps and makes a second
  request; so it does for the batch of the symbol 2330 when the response also has a valid
  price for the symbol 2317. And for the batch of the symbol 2330 the poller leaves after
  one request when the response has a valid price for the symbol 2317 only, with no best
  row for the symbol 2330.
\<close>

theorem C9_exit_test_counts_codes:
  "hasValidPrice priced2330 \<and> data_c priced2330 = JStr (stock_id tsmc)
   \<and> calls (fst (fetchBatchWithRetry (\<lambda>n. (15000, [priced2330])) [tsmc, tsmc] world0)) = 2
   \<and> sleeps (fst (fetchBatchWithRetry (\<lambda>n. (15000, [priced2330])) [tsmc, tsmc] world0)) = 1
   \<and> calls (fst (fetchBatchWithRetry (\<lambda>n. (15000, [priced2330, priced2317])) [tsmc] world0)) = 2
   \<and> sleeps (fst (fetchBatchWithRetry (\<lambda>n. (15000, [priced2330, priced2317])) [tsmc] world0)) = 1
   \<and> calls (fst (fetchBatchWithRetry (\<lambda>n. (15000, [priced2317])) [tsmc] world0)) = 1
   \<and> sleeps (fst (fetchBatchWithRetry (\<lambda>n. (15000, [priced2317])) [tsmc] world0)) = 0
   \<and> mapGet (fst (snd (fetchBatchWithRetry (\<lambda>n. (15000, [priced2317])) [tsmc] world0)))
        (JStr (stock_id tsmc)) = None"
  by (simp add: valid_examples poll_eval)

section \<open>Symbols without a best row\<close>

lemma processBatchData_untouched:
  "mapGet bestDataMap (JStr sid) = None \<Longrightarrow>
   fst (processBatchData stocks bestDataMap st) sid = st sid"
proof (induction stocks arbitrary: st)
  case Nil
  then show ?case by simp
next
  case (Cons stock stocks)
  show ?case
  proof (cases "mapGet bestDataMap (JStr (stock_id stock))")
    case None
    with Cons show ?thesis by simp
  next
    case (Some data)
    with Cons.prems have other: "stock_id stock \<noteq> sid"
      by auto
    show ?thesis
    proof (cases "parseDate data")
      case (Inl e)
      with Some show ?thesis by simp
    next
      case (Inr r)
      show ?thesis
      proof (cases "r = None \<or> r = Some []")
        case True
        with Some Inr Cons show ?thesis by auto
      next
        case False
        then obtain d where d: "r = Some d" "d \<noteq> []"
          by auto
        let ?st' = "saveData st (stock_id stock)
                      (mergeRow (loadExistingData st (stock_id stock)) d (newRow d data))"
        have "fst (processBatchData stocks bestDataMap ?st') sid = ?st' sid"
          by (rule Cons.IH [OF Cons.prems])
        also have "?st' sid = st sid"
          using other by (simp add: saveData_def)
        finally show ?thesis
          using Some Inr d by simp
      qed
    qed
  qed
qed

lemma poll_no_record:
  assumes "\<forall>data \<in> set (observed src (calls w) (calls (fst (fetchBatchWithRetry src stocks w)))).
             data_c data \<noteq> k"
  shows "mapGet (fst (snd (fetchBatchWithRetry src stocks w))) k = None"
proof -
  let ?r = "fetchBatchWithRetry src stocks w"
  have "snd ?r = observeAll (initialBest stocks, []) (observed src (calls w) (calls (fst ?r)))"
    unfolding fetchBatchWithRetry_def by (rule pollLoop_observed [THEN conjunct2])
  then have "fst (snd ?r) k = initialBest stocks k"
    using observeAll_other_key [OF assms, of "(initialBest stocks, [])"] by simp
  then show ?thesis
    using initialBest_none [of stocks k] by (simp add: mapGet_def)
qed

lemma poll_one_long_tick:
  assumes "length (snd (observeAll (initialBest stocks, []) ds)) \<noteq> length stocks"
  shows "fetchBatchWithRetry (\<lambda>n. (30000, ds)) stocks world0
       = (fetched (\<lambda>n. (30000, ds)) world0, observeAll (initialBest stocks, []) ds)"
  unfolding fetchBatchWithRetry_def
  by (rule trans [OF pollLoop_last]) (simp_all add: assms BATCH_FETCH_TIME_def fetched_def)

text \<open>
  Claim C3, as the code has it. Let \<open>obs\<close> be the records of the responses of the polling of
  a batch and \<open>polled\<close> the best rows it returns. A symbol that has no best row is skipped, and
  nothing is written to its storage: its series is what it was before. A symbol with a
  non-empty code has no best row exactly when \<open>obs\<close> has no record with its code. A symbol
  with records in \<open>obs\<close>, none of them with a valid price, is not marked satisfied and has its
  first record as best row. Such a best row is handled as every best row is: when no date
  can be derived from it (\<^verbatim>\<open>null\<close> or the empty string), nothing is written for the symbol;
  when it has a date and the loop over the batch ends without an exception, the stored
  series of the symbol holds a row of that date.
\<close>

theorem C3_no_best_row_untouched:
  assumes "obs = observed src (calls w) (calls (fst (fetchBatchWithRetry src stocks w)))"
    and "polled = fst (snd (fetchBatchWithRetry src stocks w))"
  shows "(mapGet bestDataMap (JStr sid) = None \<longrightarrow>
            fst (processBatchData stocks bestDataMap st) sid = st sid)
       \<and> ((\<forall>data \<in> set obs. data_c data \<noteq> JStr sid) \<longrightarrow>
            mapGet polled (JStr sid) = None
            \<and> fst (processBatchData stocks polled st) sid = st sid)
       \<and> (sid \<noteq> [] \<longrightarrow>
            (mapGet polled (JStr sid) = None \<longleftrightarrow> recordsOf (JStr sid) obs = []))
       \<and> (sid \<noteq> [] \<and> recordsOf (JStr sid) obs \<noteq> [] \<and> validOf (JStr sid) obs = [] \<longrightarrow>
            mapGet polled (JStr sid) = Some (hd (recordsOf (JStr sid) obs))
            \<and> JStr sid \<notin> set (snd (snd (fetchBatchWithRetry src stocks w))))
       \<and> (\<forall>data r. mapGet polled (JStr sid) = Some data \<and> parseDate data = Inr r \<longrightarrow>
            (r = None \<or> r = Some [] \<longrightarrow> fst (processBatchData stocks polled st) sid = st sid)
            \<and> (\<forall>stock s. r = Some s \<and> s \<noteq> [] \<and> stock \<in> set stocks \<and> stock_id stock = sid
                   \<and> snd (processBatchData stocks polled st) = None \<longrightarrow>
                 storedUnder (fst (processBatchData stocks polled st)) sid s))"
proof (intro conjI allI impI)
  assume "mapGet bestDataMap (JStr sid) = None"
  then show "fst (processBatchData stocks bestDataMap st) sid = st sid"
    by (rule processBatchData_untouched)
next
  assume "\<forall>data \<in> set obs. data_c data \<noteq> JStr sid"
  then show none: "mapGet polled (JStr sid) = None"
    unfolding assms by (rule poll_no_record)
  then show "fst (processBatchData stocks polled st) sid = st sid"
    by (rule processBatchData_untouched)
next
  assume "sid \<noteq> []"
  then have t: "truthy (JStr sid)"
    by simp
  from poll_best_row(1) [OF t assms(1)] valid_are_records [of "JStr sid" obs]
  show "mapGet polled (JStr sid) = None \<longleftrightarrow> recordsOf (JStr sid) obs = []"
    unfolding assms(2) by (auto split: list.splits)
next
  assume a: "sid \<noteq> [] \<and> recordsOf (JStr sid) obs \<noteq> [] \<and> validOf (JStr sid) obs = []"
  then have t: "truthy (JStr sid)"
    by simp
  from poll_best_row(1) [OF t assms(1)] a
  show "mapGet polled (JStr sid) = Some (hd (recordsOf (JStr sid) obs))"
    unfolding assms(2) by (auto split: list.splits)
  from poll_best_row(2) [OF t assms(1)] a
  show "JStr sid \<notin> set (snd (snd (fetchBatchWithRetry src stocks w)))"
    by simp
next
  fix data r
  assume g: "mapGet polled (JStr sid) = Some data \<and> parseDate data = Inr r"
  show "fst (processBatchData stocks polled st) sid = st sid" if "r = None \<or> r = Some []"
  proof (rule not_written)
    fix data' s
    assume "mapGet polled (JStr sid) = Some data'" and "parseDate data' = Inr (Some s)"
    with g that show "s = []"
      by auto
  qed
  fix stock s
  assume b: "r = Some s \<and> s \<noteq> [] \<and> stock \<in> set stocks \<and> stock_id stock = sid
             \<and> snd (processBatchData stocks polled st) = None"
  with g have "mapGet polled (JStr (stock_id stock)) = Some data"
    and "parseDate data = Inr (Some s)"
    by simp_all
  from stored_after [OF this] b
  show "storedUnder (fst (processBatchData stocks polled st)) sid s"
    by auto
qed

text \<open>
  The provider answers for the symbol 2317 only: the stored series of the symbol 2330 stays.
  The provider answers for the symbol 2330 with a placeholder of the date 20250101: the
  placeholder is the best row, and the stored series holds a row of that date.
\<close>

theorem C3_no_best_row_untouched_witness:
  "mapGet (fst (snd (fetchBatchWithRetry (\<lambda>n. (30000, [priced2317])) [tsmc, honhai] world0)))
     (JStr ''2330'') = None
   \<and> fst (processBatchData [tsmc, honhai]
            (fst (snd (fetchBatchWithRetry (\<lambda>n. (30000, [priced2317])) [tsmc, honhai] world0)))
            store2330) ''2330''
     = store2330 ''2330''
   \<and> recordsOf (JStr ''2330'')
        (observed (\<lambda>n. (30000, [placeholderA])) (calls world0)
           (calls (fst (fetchBatchWithRetry (\<lambda>n. (30000, [placeholderA])) [tsmc] world0))))
     = [placeholderA]
   \<and> validOf (JStr ''2330'')
        (observed (\<lambda>n. (30000, [placeholderA])) (calls world0)
           (calls (fst (fetchBatchWithRetry (\<lambda>n. (30000, [placeholderA])) [tsmc] world0))))
     = []
   \<and> mapGet (fst (snd (fetchBatchWithRetry (\<lambda>n. (30000, [placeholderA])) [tsmc] world0)))
        (JStr ''2330'') = Some placeholderA
   \<and> parseDate placeholderA = Inr (Some ''20250101'')
   \<and> snd (processBatchData [tsmc]
            (fst (snd (fetchBatchWithRetry (\<lambda>n. (30000, [placeholderA])) [tsmc] world0)))
            store2330) = None
   \<and> storedUnder
        (fst (processBatchData [tsmc]
               (fst (snd (fetchBatchWithRetry (\<lambda>n. (30000, [placeholderA])) [tsmc] world0)))
               store2330))
        ''2330'' ''20250101''"
proof -
  let ?src = "\<lambda>n::nat. (30000::nat, [priced2317])"
  let ?r = "fetchBatchWithRetry ?src [tsmc, honhai] world0"
  have p: "?r = (fetched ?src world0, observeAll (initialBest [tsmc, honhai], []) [priced2317])"
    by (rule poll_one_long_tick) (simp add: observe_def Let_def valid_examples setAdd_def)
  have "\<forall>data \<in> set (observed ?src (calls world0) (calls (fst ?r))). data_c data \<noteq> JStr ''2330''"
    by (simp add: p)
  with C3_no_best_row_untouched
         [OF refl refl, where src = ?src and w = world0 and stocks = "[tsmc, honhai]"
            and sid = "''2330''" and st = store2330]
  have first: "mapGet (fst (snd ?r)) (JStr ''2330'') = None"
    and second: "fst (processBatchData [tsmc, honhai] (fst (snd ?r)) store2330) ''2330''
                   = store2330 ''2330''"
    by blast+
  let ?src' = "\<lambda>n::nat. (30000::nat, [placeholderA])"
  let ?q = "fetchBatchWithRetry ?src' [tsmc] world0"
  have o: "observe (initialBest [tsmc], []) placeholderA
      = ([JStr ''2330'' \<mapsto> Some placeholderA], [])"
    by (simp add: observe_def Let_def valid_examples initialBest_def mapGet_def)
  have q: "?q = (fetched ?src' world0, [JStr ''2330'' \<mapsto> Some placeholderA], [])"
    using poll_one_long_tick [of "[tsmc]" "[placeholderA]"] by (simp add: o)
  have obs: "observed ?src' (calls world0) (calls (fst ?q)) = [placeholderA]"
    by (simp add: q)
  have rec: "recordsOf (JStr ''2330'') (observed ?src' (calls world0) (calls (fst ?q)))
      = [placeholderA]"
    and val: "validOf (JStr ''2330'') (observed ?src' (calls world0) (calls (fst ?q))) = []"
    unfolding obs by (simp_all add: recordsOf_def validOf_def valid_examples)
  have d: "parseDate placeholderA = Inr (Some ''20250101'')"
    by (simp add: placeholderA_def date_eval)
  have g: "mapGet (fst (snd ?q)) (JStr (stock_id tsmc)) = Some placeholderA"
    by (simp add: q)
  have ne: "''20250101'' \<noteq> []"
    by simp
  have n: "snd (processBatchData [tsmc] (fst (snd ?q)) store2330) = None"
    by (simp only: processBatchData_save [OF g d ne] processBatchData.simps(1) snd_conv)
  note inst = C3_no_best_row_untouched
         [OF refl refl, where src = ?src' and w = world0 and stocks = "[tsmc]"
            and sid = "''2330''" and st = store2330]
  have best: "mapGet (fst (snd ?q)) (JStr ''2330'') = Some placeholderA"
    using inst rec val by simp
  have stored: "storedUnder (fst (processBatchData [tsmc] (fst (snd ?q)) store2330))
                  ''2330'' ''20250101''"
    using inst best d n by (simp add: ne)
  from first second rec val best d n stored show ?thesis
    by (intro conjI)
qed

text \<open>
  Claim C3 as the specification states it fails. The provider answers for the symbol 2330
  with a placeholder, and no valid price is ever observed; the placeholder is the best row
  of the symbol, it is merged into the stored series, and the series is written with the
  new volume.
\<close>

theorem C3_counterexample:
  "\<not> hasValidPrice placeholderA
   \<and> snd (snd (fetchBatchWithRetry (\<lambda>n. (30000, [placeholderA])) [tsmc] world0)) = []
   \<and> store2330 ''2330''
     = Some (Content [[JStr ''20250101'', JNum (Fin 100), JNum (Fin 105), JNum (Fin 99),
                       JNum (Fin 104), JNum (Fin 5000)]])
   \<and> fst (processBatchData [tsmc]
            (fst (snd (fetchBatchWithRetry (\<lambda>n. (30000, [placeholderA])) [tsmc] world0)))
            store2330) ''2330''
     = Some (Content [[JStr ''20250101'', JNum (Fin 100), JNum (Fin 105), JNum (Fin 99),
                       JNum (Fin 104), JNum (Fin 6000)]])"
proof -
  let ?src = "\<lambda>n::nat. (30000::nat, [placeholderA])"
  have o: "observe (initialBest [tsmc], []) placeholderA
      = ([JStr ''2330'' \<mapsto> Some placeholderA], [])"
    by (simp add: observe_def Let_def valid_examples initialBest_def mapGet_def)
  have p: "fetchBatchWithRetry ?src [tsmc] world0
      = (fetched ?src world0, [JStr ''2330'' \<mapsto> Some placeholderA], [])"
    using poll_one_long_tick [of "[tsmc]" "[placeholderA]"] by (simp add: o)
  have d: "parseDate placeholderA = Inr (Some ''20250101'')"
    by (simp add: placeholderA_def date_eval)
  have g: "mapGet [JStr ''2330'' \<mapsto> Some placeholderA] (JStr (stock_id tsmc)) = Some placeholderA"
    by simp
  have ne: "''20250101'' \<noteq> []"
    by simp
  have v: "stringToNumber ''6000'' = Fin 6000"
    by (simp add: number_eval)
  have "fst (processBatchData [tsmc] [JStr ''2330'' \<mapsto> Some placeholderA] store2330) ''2330''
      = Some (Content [[JStr ''20250101'', JNum (Fin 100), JNum (Fin 105), JNum (Fin 99),
                        JNum (Fin 104), JNum (Fin 6000)]])"
    unfolding processBatchData_stored [OF g d ne]
    by (simp add: store_eval store2330_def placeholderA_def emptyQuote_def v upt_rec)
  then show ?thesis
    by (simp add: p valid_examples store2330_def)
qed

subsection \<open>A timestamp that is no number\<close>

text \<open>
  Claim C2 fails on the code. A record with no date field and the timestamp field
  \<^verbatim>\<open>"abc"\<close> makes \<^verbatim>\<open>toISOString\<close> raise a RangeError in \<^verbatim>\<open>parseDate\<close>. The
  exception leaves \<^verbatim>\<open>processBatchData\<close> and \<^verbatim>\<open>main\<close>: the other symbol of the batch, which
  has a complete record, is not stored, and the exit code is 1.
\<close>

theorem C2_unusable_timestamp_is_fatal:
  "data_d undated2330 = JUndefined
   \<and> parseDate undated2330 = Inl RangeError
   \<and> main (\<lambda>n. (100, [undated2330, priced2317])) [tsmc, honhai] world0 Map.empty
     = (\<lparr>clock = 100, calls = 1, sleeps = 0\<rparr>, Map.empty, Some RangeError)
   \<and> exitCode (main (\<lambda>n. (100, [undated2330, priced2317])) [tsmc, honhai] world0 Map.empty) = 1"
proof -
  let ?src = "\<lambda>n::nat. (100::nat, [undated2330, priced2317])"
  have n: "stringToNumber ''abc'' = NaN"
    by (simp add: number_eval)
  have p: "parseDate undated2330 = Inl RangeError"
    by (simp add: undated2330_def date_eval n)
  have v: "hasValidPrice undated2330"
    by (simp add: undated2330_def hasValidPrice_def isNaN_def number_eval)
  have c: "data_c undated2330 = JStr ''2330''"
    by (simp add: undated2330_def)
  have o: "observe (observe (initialBest [tsmc, honhai], []) undated2330) priced2317
      = ((initialBest [tsmc, honhai])
           (JStr ''2330'' \<mapsto> Some undated2330, JStr ''2317'' \<mapsto> Some priced2317),
         [JStr ''2330'', JStr ''2317''])"
    by (simp add: observe_def Let_def v c valid_examples setAdd_def)
  have f: "fetchBatchWithRetry ?src [tsmc, honhai] world0
      = (fetched ?src world0,
         (initialBest [tsmc, honhai])
           (JStr ''2330'' \<mapsto> Some undated2330, JStr ''2317'' \<mapsto> Some priced2317),
         [JStr ''2330'', JStr ''2317''])"
    unfolding fetchBatchWithRetry_def
    by (rule trans [OF pollLoop_early_exit]) (simp_all add: o BATCH_FETCH_TIME_def)
  have b: "processBatchData [tsmc, honhai]
             ((initialBest [tsmc, honhai])
                (JStr ''2330'' \<mapsto> Some undated2330, JStr ''2317'' \<mapsto> Some priced2317))
             Map.empty
      = (Map.empty, Some RangeError)"
    by (simp add: p)
  have k: "chunkArray [tsmc, honhai] BATCH_SIZE = [[tsmc, honhai]]"
    by (simp add: chunkArray_def BATCH_SIZE_def chunkFrom.simps)
  have r: "runBatches ?src [[tsmc, honhai]] world0 Map.empty
      = (fetched ?src world0, Map.empty, Some RangeError)"
    by (simp add: f b Let_def del: processBatchData.simps)
  have w: "fetched ?src world0 = \<lparr>clock = 100, calls = 1, sleeps = 0\<rparr>"
    by (simp add: fetched_def world0_def)
  have m: "main ?src [tsmc, honhai] world0 Map.empty
      = (\<lparr>clock = 100, calls = 1, sleeps = 0\<rparr>, Map.empty, Some RangeError)"
    by (simp add: main_def k r w del: runBatches.simps processBatchData.simps)
  have d: "data_d undated2330 = JUndefined"
    by (simp add: undated2330_def emptyQuote_def)
  have e: "exitCode (main ?src [tsmc, honhai] world0 Map.empty) = 1"
    by (simp add: m exitCode_def)
  from d p m e show ?thesis
    by (intro conjI)
qed

section \<open>The two retry loops\<close>

lemma retryLoop_done:
  "\<not> clock w - startTime < MAX_RETRY_TIME \<Longrightarrow>
   retryLoop src startTime w lastValidData = (w, lastValidData)"
  by (subst retryLoop.simps) simp

lemma retryLoop_none:
  "clock w - startTime < MAX_RETRY_TIME \<Longrightarrow> firstRecord (snd (src (calls w))) = None \<Longrightarrow>
   retryLoop src startTime w lastValidData
     = retryLoop src startTime (delay RETRY_INTERVAL (fetched src w)) lastValidData"
  by (subst retryLoop.simps) simp

lemma retryLoop_placeholder:
  "clock w - startTime < MAX_RETRY_TIME \<Longrightarrow> firstRecord (snd (src (calls w))) = Some data \<Longrightarrow>
   \<not> hasValidPrice data \<Longrightarrow>
   retryLoop src startTime w lastValidData
     = retryLoop src startTime (delay RETRY_INTERVAL (fetched src w)) (Some data)"
  by (subst retryLoop.simps) simp

lemma firstRecord_None: "firstRecord ds = None \<longleftrightarrow> ds = []"
  by (cases ds) (simp_all add: firstRecord_def)

lemma firstRecord_single: "length ds \<le> 1 \<Longrightarrow> firstRecord ds = Some data \<Longrightarrow> ds = [data]"
  by (cases ds) (simp_all add: firstRecord_def)

text \<open>
  With no valid price in any response, and at most one record in each, the per-symbol loop
  returns the last record of the responses it received, and what it started with when
  there was none.
\<close>

lemma retryLoop_observed:
  assumes "\<forall>n. length (snd (src n)) \<le> 1"
    and "\<forall>n. \<forall>data \<in> set (snd (src n)). \<not> hasValidPrice data"
  shows "calls w \<le> calls (fst (retryLoop src startTime w lastValidData))
       \<and> snd (retryLoop src startTime w lastValidData)
         = (if observed src (calls w) (calls (fst (retryLoop src startTime w lastValidData))) = []
            then lastValidData
            else Some (last (observed src (calls w)
                               (calls (fst (retryLoop src startTime w lastValidData))))))"
  using assms
proof (induction src startTime w lastValidData rule: retryLoop.induct)
  case (1 src startTime w lastValidData)
  let ?w' = "delay RETRY_INTERVAL (fetched src w)"
  show ?case
  proof (cases "clock w - startTime < MAX_RETRY_TIME")
    case False
    then show ?thesis by (simp add: retryLoop_done)
  next
    case inTime: True
    show ?thesis
    proof (cases "firstRecord (snd (src (calls w)))")
      case None
      let ?r = "retryLoop src startTime ?w' lastValidData"
      from None have empty: "snd (src (calls w)) = []"
        by (simp add: firstRecord_None)
      from "1.IH"(1) [OF inTime None "1.prems"]
      have le: "Suc (calls w) \<le> calls (fst ?r)"
        and eq: "snd ?r = (if observed src (Suc (calls w)) (calls (fst ?r)) = [] then lastValidData
                           else Some (last (observed src (Suc (calls w)) (calls (fst ?r)))))"
        by simp_all
      from le have "observed src (calls w) (calls (fst ?r))
          = observed src (Suc (calls w)) (calls (fst ?r))"
        by (simp add: observed_step empty)
      with le eq show ?thesis
        by (simp add: retryLoop_none [where src = src and w = w, OF inTime None])
    next
      case (Some data)
      let ?r = "retryLoop src startTime ?w' (Some data)"
      from "1.prems"(1) Some have single: "snd (src (calls w)) = [data]"
        by (intro firstRecord_single) simp_all
      with "1.prems"(2) have invalid: "\<not> hasValidPrice data"
        by (metis list.set_intros(1))
      from "1.IH"(2) [OF inTime Some invalid "1.prems"]
      have le: "Suc (calls w) \<le> calls (fst ?r)"
        and eq: "snd ?r = (if observed src (Suc (calls w)) (calls (fst ?r)) = [] then Some data
                           else Some (last (observed src (Suc (calls w)) (calls (fst ?r)))))"
        by simp_all
      from le have "observed src (calls w) (calls (fst ?r))
          = data # observed src (Suc (calls w)) (calls (fst ?r))"
        by (simp add: observed_step single)
      with le eq show ?thesis
        by (simp add: retryLoop_placeholder [where src = src and w = w, OF inTime Some invalid])
    qed
  qed
qed

text \<open>
  With no valid price in any record, the best row of a symbol after a list of records of
  that symbol is the one it had, and the first record of the list when it had none.
\<close>

lemma observeAll_placeholders:
  assumes "truthy k" and "\<forall>data \<in> set ds. \<not> hasValidPrice data \<and> data_c data = k"
  shows "mapGet (fst (observeAll (best, valid) ds)) k
         = (case mapGet best k of
              Some old \<Rightarrow> Some old
            | None \<Rightarrow> (if ds = [] then None else Some (hd ds)))
       \<and> snd (observeAll (best, valid) ds) = valid"
  using assms(2)
proof (induction ds arbitrary: best)
  case Nil
  then show ?case by (simp split: option.splits)
next
  case (Cons data ds)
  then have d: "\<not> hasValidPrice data" "data_c data = k"
    and rest: "\<forall>data \<in> set ds. \<not> hasValidPrice data \<and> data_c data = k"
    by simp_all
  from assms(1) d(2) have t: "truthy (data_c data)"
    by simp
  show ?case
  proof (cases "mapGet best k")
    case None
    with d t have o: "observe (best, valid) data = (best(k \<mapsto> Some data), valid)"
      using observe_first_placeholder [of data best valid] by simp
    have "mapGet (fst (observeAll (best(k \<mapsto> Some data), valid) ds)) k
            = (case mapGet (best(k \<mapsto> Some data)) k of
                 Some old \<Rightarrow> Some old
               | None \<Rightarrow> (if ds = [] then None else Some (hd ds)))
          \<and> snd (observeAll (best(k \<mapsto> Some data), valid) ds) = valid"
      by (rule Cons.IH [OF rest])
    then show ?thesis
      by (simp add: o None)
  next
    case (Some old)
    with d t have o: "observe (best, valid) data = (best, valid)"
      using observe_later_placeholder [of data best old valid] by simp
    have "mapGet (fst (observeAll (best, valid) ds)) k
            = (case mapGet best k of
                 Some old \<Rightarrow> Some old
               | None \<Rightarrow> (if ds = [] then None else Some (hd ds)))
          \<and> snd (observeAll (best, valid) ds) = valid"
      by (rule Cons.IH [OF rest])
    then show ?thesis
      by (simp add: o Some)
  qed
qed

lemma observed_members:
  "data \<in> set (observed src a b) \<Longrightarrow> \<exists>n. data \<in> set (snd (src n))"
  by (auto simp: observed_def)

text \<open>
  With no valid price in any response, the two loops make the same number of requests for
  a batch of one symbol.
\<close>

lemma same_number_of_calls:
  assumes "\<forall>n. \<forall>data \<in> set (snd (src n)). \<not> hasValidPrice data \<and> data_c data = k"
    and "truthy k" and "snd st = []"
  shows "calls (fst (pollLoop src [stock] startTime w st))
       = calls (fst (retryLoop src startTime w lastValidData))"
  using assms
proof (induction src "[stock]" startTime w st arbitrary: lastValidData rule: pollLoop.induct)
  case (1 src startTime w st)
  let ?st' = "observeAll st (snd (src (calls w)))"
  let ?w' = "fetched src w"
  show ?case
  proof (cases "clock w - startTime < BATCH_FETCH_TIME")
    case False
    then show ?thesis
      by (simp add: pollLoop_done retryLoop_done BATCH_FETCH_TIME_def MAX_RETRY_TIME_def)
  next
    case inTime: True
    then have inTime': "clock w - startTime < MAX_RETRY_TIME"
      by (simp add: BATCH_FETCH_TIME_def MAX_RETRY_TIME_def)
    from "1.prems"(1) have "\<forall>data \<in> set (snd (src (calls w))). \<not> hasValidPrice data \<and> data_c data = k"
      by blast
    from observeAll_placeholders [OF "1.prems"(2) this, of "fst st" "[]"] "1.prems"(3)
    have none: "snd ?st' = []"
      by (cases st) simp
    then have more: "length (snd ?st') \<noteq> length [stock]"
      by simp
    obtain lv where step: "retryLoop src startTime w lastValidData
        = retryLoop src startTime (delay RETRY_INTERVAL ?w') lv"
    proof (cases "firstRecord (snd (src (calls w)))")
      case None
      from retryLoop_none [where src = src and w = w, OF inTime' None] that
      show ?thesis by blast
    next
      case (Some data)
      then have "data \<in> set (snd (src (calls w)))"
        by (cases "snd (src (calls w))") (simp_all add: firstRecord_def)
      with "1.prems"(1) have "\<not> hasValidPrice data"
        by blast
      from retryLoop_placeholder [where src = src and w = w, OF inTime' Some this] that
      show ?thesis by blast
    qed
    show ?thesis
    proof (cases "clock ?w' - startTime < BATCH_FETCH_TIME")
      case True
      from "1.hyps"(1) [OF inTime refl refl more True "1.prems"(1,2) none, of lv]
      show ?thesis
        by (simp add: pollLoop_sleep [where src = src and w = w, OF inTime more True] step)
    next
      case False
      then have "\<not> clock (delay RETRY_INTERVAL ?w') - startTime < MAX_RETRY_TIME"
        by (simp add: delay_def BATCH_FETCH_TIME_def MAX_RETRY_TIME_def RETRY_INTERVAL_def)
      then have "retryLoop src startTime w lastValidData = (delay RETRY_INTERVAL ?w', lv)"
        by (simp add: step retryLoop_done)
      then show ?thesis
        by (simp add: pollLoop_last [where src = src and w = w, OF inTime more False])
    qed
  qed
qed

lemma two_placeholders_legacy:
  "fetchWithRetry twoPlaceholders world0
     = (\<lparr>clock = 36000, calls = 2, sleeps = 2\<rparr>, Some placeholderB)"
  by (simp add: fetchWithRetry_def retryLoop.simps firstRecord_def twoPlaceholders_def
      valid_examples fetched_def delay_def MAX_RETRY_TIME_def RETRY_INTERVAL_def world0_def)

lemma two_placeholders_batch:
  "fetchBatchWithRetry twoPlaceholders [tsmc] world0
     = (\<lparr>clock = 33000, calls = 2, sleeps = 1\<rparr>, [JStr ''2330'' \<mapsto> Some placeholderA], [])"
  by (simp add: poll_eval twoPlaceholders_def valid_examples world0_def)

lemma placeholders_differ: "placeholderA \<noteq> placeholderB"
  by (simp add: placeholderA_def placeholderB_def emptyQuote_def)

text \<open>
  Claim C10. Take a symbol and a sequence of ticks whose responses carry at most one record
  each, all of that symbol and none with a valid price, and let \<open>obs\<close> be the records of the
  responses that the per-symbol loop \<^verbatim>\<open>fetchWithRetry\<close> receives. The batch loop
  \<^verbatim>\<open>fetchBatchWithRetry\<close> makes the same number of requests for the batch of that symbol.
  \<^verbatim>\<open>fetchWithRetry\<close> returns the last record of \<open>obs\<close>, and \<^verbatim>\<open>fetchBatchWithRetry\<close> keeps the
  first one as the best row. For the source \<open>twoPlaceholders\<close> of two distinct records
  without a valid price, the two functions give different records for the symbol 2330.
\<close>

theorem C10_placeholder_retention:
  assumes "stock_id stock \<noteq> []"
    and "\<forall>n. length (snd (src n)) \<le> 1"
    and "\<forall>n. \<forall>data \<in> set (snd (src n)).
           \<not> hasValidPrice data \<and> data_c data = JStr (stock_id stock)"
    and "obs = observed src (calls w) (calls (fst (fetchWithRetry src w)))"
  shows "calls (fst (fetchBatchWithRetry src [stock] w)) = calls (fst (fetchWithRetry src w))
       \<and> snd (fetchWithRetry src w) = (if obs = [] then None else Some (last obs))
       \<and> mapGet (fst (snd (fetchBatchWithRetry src [stock] w))) (JStr (stock_id stock))
           = (if obs = [] then None else Some (hd obs))
       \<and> (\<not> hasValidPrice placeholderA \<and> \<not> hasValidPrice placeholderB
          \<and> placeholderA \<noteq> placeholderB
          \<and> snd (fetchWithRetry twoPlaceholders world0) = Some placeholderB
          \<and> mapGet (fst (snd (fetchBatchWithRetry twoPlaceholders [tsmc] world0)))
               (JStr (stock_id tsmc))
              = Some placeholderA)"
proof (intro conjI)
  let ?k = "JStr (stock_id stock)"
  from assms(1) have t: "truthy ?k"
    by simp
  show n: "calls (fst (fetchBatchWithRetry src [stock] w)) = calls (fst (fetchWithRetry src w))"
    unfolding fetchBatchWithRetry_def fetchWithRetry_def
    by (rule same_number_of_calls [OF assms(3) t]) simp
  from assms(3) have invalid: "\<forall>n. \<forall>data \<in> set (snd (src n)). \<not> hasValidPrice data"
    by blast
  show "snd (fetchWithRetry src w) = (if obs = [] then None else Some (last obs))"
    unfolding assms(4) fetchWithRetry_def
    by (rule retryLoop_observed [OF assms(2) invalid, THEN conjunct2])
  have "snd (fetchBatchWithRetry src [stock] w)
      = observeAll (initialBest [stock], [])
          (observed src (calls w) (calls (fst (fetchBatchWithRetry src [stock] w))))"
    unfolding fetchBatchWithRetry_def by (rule pollLoop_observed [THEN conjunct2])
  then have s: "snd (fetchBatchWithRetry src [stock] w) = observeAll (initialBest [stock], []) obs"
    by (simp add: n assms(4))
  have "\<forall>data \<in> set obs. \<not> hasValidPrice data \<and> data_c data = ?k"
    unfolding assms(4) using assms(3) by (blast dest: observed_members)
  from observeAll_placeholders [OF t this, of "initialBest [stock]" "[]"]
  show "mapGet (fst (snd (fetchBatchWithRetry src [stock] w))) ?k
      = (if obs = [] then None else Some (hd obs))"
    by (simp add: s initialBest_none)
qed (simp_all add: valid_examples placeholders_differ two_placeholders_legacy
      two_placeholders_batch)

text \<open>
  The source \<open>twoPlaceholders\<close>: both loops make two requests and receive the records
  \<open>placeholderA\<close> and \<open>placeholderB\<close>; the per-symbol loop returns the second and the batch
  loop keeps the first.
\<close>

theorem C10_placeholder_retention_witness:
  "stock_id tsmc \<noteq> []
   \<and> observed twoPlaceholders (calls world0) (calls (fst (fetchWithRetry twoPlaceholders world0)))
     = [placeholderA, placeholderB]
   \<and> calls (fst (fetchBatchWithRetry twoPlaceholders [tsmc] world0))
     = calls (fst (fetchWithRetry twoPlaceholders world0))
   \<and> snd (fetchWithRetry twoPlaceholders world0) = Some (last [placeholderA, placeholderB])
   \<and> mapGet (fst (snd (fetchBatchWithRetry twoPlaceholders [tsmc] world0))) (JStr (stock_id tsmc))
     = Some (hd [placeholderA, placeholderB])"
proof -
  have a: "stock_id tsmc \<noteq> []"
    by simp
  have b: "\<forall>n. length (snd (twoPlaceholders n)) \<le> 1"
    by (simp add: twoPlaceholders_def)
  have c: "\<forall>n. \<forall>data \<in> set (snd (twoPlaceholders n)).
             \<not> hasValidPrice data \<and> data_c data = JStr (stock_id tsmc)"
    by (simp add: twoPlaceholders_def valid_examples)
  have d: "observed twoPlaceholders (calls world0)
             (calls (fst (fetchWithRetry twoPlaceholders world0)))
      = [placeholderA, placeholderB]"
    by (simp add: two_placeholders_legacy observed_def twoPlaceholders_def upt_rec)
  note r = C10_placeholder_retention [OF a b c d [symmetric]]
  have n: "calls (fst (fetchBatchWithRetry twoPlaceholders [tsmc] world0))
      = calls (fst (fetchWithRetry twoPlaceholders world0))"
    by (rule r [THEN conjunct1])
  have l: "snd (fetchWithRetry twoPlaceholders world0) = Some (last [placeholderA, placeholderB])"
    using r [THEN conjunct2, THEN conjunct1] by simp
  have h: "mapGet (fst (snd (fetchBatchWithRetry twoPlaceholders [tsmc] world0)))
             (JStr (stock_id tsmc))
      = Some (hd [placeholderA, placeholderB])"
    using r [THEN conjunct2, THEN conjunct2, THEN conjunct1] by simp
  from a d n l h show ?thesis
    by (intro conjI)
qed


end
